theory Spec2Isabelle
  imports Main "HOL-Library.List_Lexorder" "HOL-Library.Char_ord"
begin

section \<open>Go runtime and library functions the tool relies on\<close>

text \<open>
  The ways in which the process can end before a function returns: the run-time panic of an
  index expression out of range, the run-time panic of a field read through a nil pointer,
  and \<open>Exit\<close>, the end of the process at a call of \<^verbatim>\<open>log.Fatalf\<close> or \<^verbatim>\<open>log.Fatalln\<close>.
  What such a call prints is not modelled.
\<close>

datatype abort = IndexOutOfRange | NilDereference | Exit

text \<open>
  \<^verbatim>\<open>strings.Split(s, sep)\<close> for a one-byte separator (the tool only ever splits on
  \<^verbatim>\<open>"@"\<close>): the text before the first separator, then the split of the text after it; a
  string without the separator is returned whole, as the only element.
\<close>

function Split :: "string \<Rightarrow> char \<Rightarrow> string list" where
  "Split s c =
     (case dropWhile (\<lambda>x. x \<noteq> c) s of
        [] \<Rightarrow> [s]
      | _ # rest \<Rightarrow> takeWhile (\<lambda>x. x \<noteq> c) s # Split rest c)"
  by pat_completeness auto
termination
proof (relation "measure (\<lambda>(s, c). length s)")
  show "wf (measure (\<lambda>(s, c). length s))" by simp
next
  fix s :: string and c x rest
  assume "dropWhile (\<lambda>x. x \<noteq> c) s = x # rest"
  then have "length rest < length (dropWhile (\<lambda>x. x \<noteq> c) s)" by simp
  also have "\<dots> \<le> length s" by (rule length_dropWhile_le)
  finally show "((rest, c), (s, c)) \<in> measure (\<lambda>(s, c). length s)" by simp
qed

declare Split.simps [simp del]

text \<open>\<^verbatim>\<open>strings.Join(elems, sep)\<close>: the elements with the separator between neighbours.\<close>

fun Join :: "string list \<Rightarrow> string \<Rightarrow> string" where
  "Join [] sep = []"
| "Join [x] sep = x"
| "Join (x # y # ys) sep = x @ sep @ Join (y # ys) sep"

text \<open>
  \<^verbatim>\<open>strings.ToLower\<close> on the ASCII letters; every other byte is kept. The library function
  lower-cases by rune and rewrites invalid bytes, so the two differ on text that is not
  ASCII. The tool compares the result with the one-letter answers \<^verbatim>\<open>"y"\<close> and \<^verbatim>\<open>"n"\<close> only,
  and no other rune than the upper-case letter has either as its lower-case form.
\<close>

definition lower_char :: "char \<Rightarrow> char" where
  "lower_char c =
     (case map_of (zip ''ABCDEFGHIJKLMNOPQRSTUVWXYZ'' ''abcdefghijklmnopqrstuvwxyz'') c of
        None \<Rightarrow> c
      | Some l \<Rightarrow> l)"

definition ToLower :: "string \<Rightarrow> string" where
  "ToLower s = map lower_char s"

section \<open>The domain changer\<close>

record Customer =
  CustId :: string
  CustomerDomain :: string

text \<open>
  \<^verbatim>\<open>DomainChanger\<close>: the customer record fetched at construction and the two domains. Its
  service handle \<^verbatim>\<open>srv\<close> is the directory that the operations below take and return.
\<close>

record DomainChanger =
  cust :: Customer
  oldDomain :: string
  newDomain :: string

definition checkNewDomain :: "DomainChanger \<Rightarrow> bool" where
  "checkNewDomain d = (if CustomerDomain (cust d) = newDomain d then False else True)"

text \<open>
  \<^verbatim>\<open>changeEmailDomain\<close>: split on \<^verbatim>\<open>"@"\<close>, store the domain at index 1, join again. The
  store panics when the split has fewer than two elements.
\<close>

definition changeEmailDomain :: "string \<Rightarrow> string \<Rightarrow> abort + string" where
  "changeEmailDomain email domain =
     (let addrParts = Split email CHR ''@''
      in if 1 < length addrParts then Inr (Join (addrParts[1 := domain]) ''@'')
         else Inl IndexOutOfRange)"

definition emailNewDomain :: "DomainChanger \<Rightarrow> string \<Rightarrow> abort + string" where
  "emailNewDomain d email = changeEmailDomain email (newDomain d)"

definition emailOldDomain :: "DomainChanger \<Rightarrow> string \<Rightarrow> abort + string" where
  "emailOldDomain d email = changeEmailDomain email (oldDomain d)"

fun hasAlias :: "string \<Rightarrow> string list \<Rightarrow> bool" where
  "hasAlias alias [] = False"
| "hasAlias alias (a # as) = (if alias = a then True else hasAlias alias as)"

section \<open>The directory service\<close>

text \<open>
  A user or group record, with the fields the passes read: the key \<^verbatim>\<open>Id\<close> (here
  \<open>Ident\<close>), the primary address (\<^verbatim>\<open>PrimaryEmail\<close> of a user, \<^verbatim>\<open>Email\<close> of a group) and
  \<^verbatim>\<open>Aliases\<close>, in the order of the listing.
\<close>

record Principal =
  Ident :: string
  PrimaryEmail :: string
  Aliases :: "string list"

datatype kind = User | Group

record directory =
  customer :: Customer
  users :: "Principal list"
  groups :: "Principal list"

text \<open>
  The requests the tool sends. The mutating ones are logged by the passes below in the order
  in which they are issued: the customer update (key, new domain), the update of a
  principal (key, new primary address) and the insert of an alias (key, alias).
\<close>

datatype request =
    CustomersGetReq
  | ListReq kind
  | CustomersUpdateReq string string
  | UpdateReq kind string string
  | AliasInsertReq kind string string

datatype api_error = TransportError | NotFound

text \<open>Which requests the service answers with a transport error.\<close>

type_synonym failures = "request \<Rightarrow> bool"

fun members :: "kind \<Rightarrow> directory \<Rightarrow> Principal list" where
  "members User dir = users dir"
| "members Group dir = groups dir"

fun set_members :: "kind \<Rightarrow> Principal list \<Rightarrow> directory \<Rightarrow> directory" where
  "set_members User ps dir = dir\<lparr>users := ps\<rparr>"
| "set_members Group ps dir = dir\<lparr>groups := ps\<rparr>"

definition modify :: "string \<Rightarrow> (Principal \<Rightarrow> Principal) \<Rightarrow> Principal list \<Rightarrow> Principal list" where
  "modify key f ps = map (\<lambda>q. if Ident q = key then f q else q) ps"

definition add_alias :: "string \<Rightarrow> string list \<Rightarrow> string list" where
  "add_alias a as = (if a \<in> set as then as else as @ [a])"

text \<open>The page size the service uses when a listing request names none.\<close>

fun defaultMaxResults :: "kind \<Rightarrow> nat" where
  "defaultMaxResults User = 100"
| "defaultMaxResults Group = 200"

text \<open>
  The order a listing request asks for: \<^verbatim>\<open>OrderBy("email")\<close>, or none, which leaves it to
  the service.
\<close>

datatype listing_order = ByEmail | AsStored

text \<open>
  Modelled from the spec: the remote directory behind \<^verbatim>\<open>admin.Service\<close> (the
  \<^verbatim>\<open>DirectoryClient\<close> contract), which is not part of the repository. A listing answers with
  the first page only, and the rest is behind a page token; asked to order by email, it sorts
  the records by their primary address as it is at the time of the request (ascending, byte
  by byte), and otherwise it answers in the order in which it keeps them. An update rewrites
  the primary address of the record with the given key and answers with the stored record;
  an alias insert adds the alias to that record's alias set. Nothing is ever deleted.
\<close>

definition apiList ::
  "failures \<Rightarrow> kind \<Rightarrow> nat option \<Rightarrow> listing_order \<Rightarrow> directory \<Rightarrow> api_error + Principal list" where
  "apiList fails k maxResults orderBy dir =
     (if fails (ListReq k) then Inl TransportError
      else Inr (take (case maxResults of None \<Rightarrow> defaultMaxResults k | Some n \<Rightarrow> n)
                  (case orderBy of
                     ByEmail \<Rightarrow> sort_key PrimaryEmail (members k dir)
                   | AsStored \<Rightarrow> members k dir)))"

definition apiUpdate ::
  "failures \<Rightarrow> kind \<Rightarrow> string \<Rightarrow> Principal \<Rightarrow> directory \<Rightarrow> (api_error + Principal) \<times> directory" where
  "apiUpdate fails k key p dir =
     (if fails (UpdateReq k key (PrimaryEmail p)) then (Inl TransportError, dir)
      else case find (\<lambda>q. Ident q = key) (members k dir) of
             None \<Rightarrow> (Inl NotFound, dir)
           | Some q \<Rightarrow>
               (Inr (q\<lparr>PrimaryEmail := PrimaryEmail p\<rparr>),
                set_members k
                  (modify key (\<lambda>q. q\<lparr>PrimaryEmail := PrimaryEmail p\<rparr>) (members k dir)) dir))"

definition apiAliasInsert ::
  "failures \<Rightarrow> kind \<Rightarrow> string \<Rightarrow> string \<Rightarrow> directory \<Rightarrow> (api_error + string) \<times> directory" where
  "apiAliasInsert fails k key alias dir =
     (if fails (AliasInsertReq k key alias) then (Inl TransportError, dir)
      else case find (\<lambda>q. Ident q = key) (members k dir) of
             None \<Rightarrow> (Inl NotFound, dir)
           | Some q \<Rightarrow>
               (Inr alias,
                set_members k
                  (modify key (\<lambda>q. q\<lparr>Aliases := add_alias alias (Aliases q)\<rparr>) (members k dir)) dir))"

definition apiCustomersUpdate ::
  "failures \<Rightarrow> string \<Rightarrow> string \<Rightarrow> directory \<Rightarrow> (api_error + Customer) \<times> directory" where
  "apiCustomersUpdate fails key domain dir =
     (if fails (CustomersUpdateReq key domain) then (Inl TransportError, dir)
      else (Inr ((customer dir)\<lparr>CustomerDomain := domain\<rparr>),
            dir\<lparr>customer := (customer dir)\<lparr>CustomerDomain := domain\<rparr>\<rparr>))"

section \<open>The passes\<close>

text \<open>
  What a method leaves behind: how it ended, the mutating requests it issued, and the
  directory afterwards. Console output is not modelled.
\<close>

type_synonym run = "(abort + unit) \<times> request list \<times> directory"

definition after :: "request list \<Rightarrow> run \<Rightarrow> run" where
  "after cs r = (case r of (out, cs', dir) \<Rightarrow> (out, cs @ cs', dir))"

definition then_run :: "run \<Rightarrow> (directory \<Rightarrow> run) \<Rightarrow> run" where
  "then_run r f =
     (case r of
        (Inl e, cs, dir) \<Rightarrow> (Inl e, cs, dir)
      | (Inr _, cs, dir) \<Rightarrow> after cs (f dir))"

text \<open>
  \<^verbatim>\<open>NewDomainChanger\<close> fetches the customer record once; failing to do so is fatal.
\<close>

definition NewDomainChanger :: "failures \<Rightarrow> string \<Rightarrow> string \<Rightarrow> directory \<Rightarrow> abort + DomainChanger" where
  "NewDomainChanger fails old new dir =
     (if fails CustomersGetReq then Inl Exit
      else Inr \<lparr>cust = customer dir, oldDomain = old, newDomain = new\<rparr>)"

text \<open>
  \<^verbatim>\<open>ChangePrimaryDomain\<close>. The answer read by \<^verbatim>\<open>fmt.Scan\<close> is \<open>Some code\<close>, or \<open>None\<close>
  when reading fails.
\<close>

definition ChangePrimaryDomain :: "DomainChanger \<Rightarrow> failures \<Rightarrow> string option \<Rightarrow> directory \<Rightarrow> run" where
  "ChangePrimaryDomain d fails input dir =
     (if \<not> checkNewDomain d then
        (case input of
           None \<Rightarrow> (Inl Exit, [], dir)
         | Some code \<Rightarrow>
             if ToLower code = ''n'' then (Inl Exit, [], dir) else (Inr (), [], dir))
      else
        (case input of
           None \<Rightarrow> (Inl Exit, [], dir)
         | Some code \<Rightarrow>
             if ToLower code \<noteq> ''y'' then (Inl Exit, [], dir)
             else
               (case apiCustomersUpdate fails (CustId (cust d)) (newDomain d) dir of
                  (Inl err, dir') \<Rightarrow>
                    (Inl Exit, [CustomersUpdateReq (CustId (cust d)) (newDomain d)], dir')
                | (Inr _, dir') \<Rightarrow>
                    (Inr (), [CustomersUpdateReq (CustId (cust d)) (newDomain d)], dir'))))"

text \<open>
  \<^verbatim>\<open>UpdateUserAliases\<close> and \<^verbatim>\<open>UpdateGroupAliases\<close> have the same body, up to the alias
  service they call; \<open>k\<close> says which. The loop ranges over the aliases of the record it was
  given and tests every candidate against that same list. A failed insert is reported on the
  console and the loop goes on.
\<close>

fun UpdateAliases_loop ::
  "kind \<Rightarrow> DomainChanger \<Rightarrow> failures \<Rightarrow> Principal \<Rightarrow> string \<Rightarrow> string list \<Rightarrow> directory \<Rightarrow> run" where
  "UpdateAliases_loop k d fails u oldAddress [] dir = (Inr (), [], dir)"
| "UpdateAliases_loop k d fails u oldAddress (a # as) dir =
     (if a \<noteq> oldAddress then
        (case emailNewDomain d a of
           Inl e \<Rightarrow> (Inl e, [], dir)
         | Inr newA \<Rightarrow>
             if \<not> hasAlias newA (Aliases u) then
               (case apiAliasInsert fails k (Ident u) newA dir of
                  (errA, dir') \<Rightarrow>
                    after [AliasInsertReq k (Ident u) newA]
                      (UpdateAliases_loop k d fails u oldAddress as dir'))
             else UpdateAliases_loop k d fails u oldAddress as dir)
      else UpdateAliases_loop k d fails u oldAddress as dir)"

definition UpdateAliases :: "kind \<Rightarrow> DomainChanger \<Rightarrow> failures \<Rightarrow> Principal \<Rightarrow> directory \<Rightarrow> run" where
  "UpdateAliases k d fails u dir =
     (case emailOldDomain d (PrimaryEmail u) of
        Inl e \<Rightarrow> (Inl e, [], dir)
      | Inr oldAddress \<Rightarrow> UpdateAliases_loop k d fails u oldAddress (Aliases u) dir)"

definition UpdateUserAliases :: "DomainChanger \<Rightarrow> failures \<Rightarrow> Principal \<Rightarrow> directory \<Rightarrow> run" where
  "UpdateUserAliases = UpdateAliases User"

definition UpdateGroupAliases :: "DomainChanger \<Rightarrow> failures \<Rightarrow> Principal \<Rightarrow> directory \<Rightarrow> run" where
  "UpdateGroupAliases = UpdateAliases Group"

text \<open>
  The loop of \<^verbatim>\<open>UpdateUsers\<close> over the listed page. After a rename the loop variable is the
  record the service answered with, and the alias pass runs on that one. When the update
  fails, the loop variable has been overwritten by the nil answer of the failed call, and the
  arguments of the \<^verbatim>\<open>log.Fatalf\<close> statement read \<^verbatim>\<open>u.Name.FullName\<close> through it: the process
  stops there with a nil-pointer panic, before \<^verbatim>\<open>log.Fatalf\<close> is called.
\<close>

fun UpdateUsers_loop :: "DomainChanger \<Rightarrow> failures \<Rightarrow> Principal list \<Rightarrow> directory \<Rightarrow> run" where
  "UpdateUsers_loop d fails [] dir = (Inr (), [], dir)"
| "UpdateUsers_loop d fails (u # us) dir =
     (case emailNewDomain d (PrimaryEmail u) of
        Inl e \<Rightarrow> (Inl e, [], dir)
      | Inr emailUpdate \<Rightarrow>
          if emailUpdate = PrimaryEmail u then
            then_run (UpdateUserAliases d fails u dir) (\<lambda>dir'. UpdateUsers_loop d fails us dir')
          else
            (case apiUpdate fails User (Ident u) (u\<lparr>PrimaryEmail := emailUpdate\<rparr>) dir of
               (Inl err, dir') \<Rightarrow> (Inl NilDereference, [UpdateReq User (Ident u) emailUpdate], dir')
             | (Inr u', dir') \<Rightarrow>
                 after [UpdateReq User (Ident u) emailUpdate]
                   (then_run (UpdateUserAliases d fails u' dir')
                      (\<lambda>dir''. UpdateUsers_loop d fails us dir''))))"

definition UpdateUsers :: "DomainChanger \<Rightarrow> failures \<Rightarrow> directory \<Rightarrow> run" where
  "UpdateUsers d fails dir =
     (case apiList fails User (Some 50) ByEmail dir of
        Inl err \<Rightarrow> (Inl Exit, [], dir)
      | Inr ru \<Rightarrow>
          if length ru = 0 then (Inr (), [], dir) else UpdateUsers_loop d fails ru dir)"

text \<open>
  The loop of \<^verbatim>\<open>UpdateGroups\<close>. The answer of the update is bound to a new variable inside
  the branch, so the alias pass runs on the listed record with its address rewritten. When
  the update fails, that new variable is the nil answer of the failed call, and the arguments
  of the \<^verbatim>\<open>log.Fatalf\<close> statement read \<^verbatim>\<open>g.Name\<close> through it: the process stops with a
  nil-pointer panic, as in the user loop.
\<close>

fun UpdateGroups_loop :: "DomainChanger \<Rightarrow> failures \<Rightarrow> Principal list \<Rightarrow> directory \<Rightarrow> run" where
  "UpdateGroups_loop d fails [] dir = (Inr (), [], dir)"
| "UpdateGroups_loop d fails (g # gs) dir =
     (case emailNewDomain d (PrimaryEmail g) of
        Inl e \<Rightarrow> (Inl e, [], dir)
      | Inr emailUpdate \<Rightarrow>
          if emailUpdate = PrimaryEmail g then
            then_run (UpdateGroupAliases d fails g dir) (\<lambda>dir'. UpdateGroups_loop d fails gs dir')
          else
            (case apiUpdate fails Group (Ident g) (g\<lparr>PrimaryEmail := emailUpdate\<rparr>) dir of
               (Inl err, dir') \<Rightarrow> (Inl NilDereference, [UpdateReq Group (Ident g) emailUpdate], dir')
             | (Inr _, dir') \<Rightarrow>
                 after [UpdateReq Group (Ident g) emailUpdate]
                   (then_run (UpdateGroupAliases d fails (g\<lparr>PrimaryEmail := emailUpdate\<rparr>) dir')
                      (\<lambda>dir''. UpdateGroups_loop d fails gs dir''))))"

definition UpdateGroups :: "DomainChanger \<Rightarrow> failures \<Rightarrow> directory \<Rightarrow> run" where
  "UpdateGroups d fails dir =
     (case apiList fails Group None AsStored dir of
        Inl err \<Rightarrow> (Inl Exit, [], dir)
      | Inr gu \<Rightarrow>
          if length gu = 0 then (Inr (), [], dir) else UpdateGroups_loop d fails gu dir)"

text \<open>The user pass and then the group pass, as \<^verbatim>\<open>main\<close> runs them.\<close>

definition passes :: "DomainChanger \<Rightarrow> failures \<Rightarrow> directory \<Rightarrow> run" where
  "passes d fails dir = then_run (UpdateUsers d fails dir) (\<lambda>dir'. UpdateGroups d fails dir')"

text \<open>
  \<^verbatim>\<open>main\<close> of the current entry point, from the two flags on: both domains are required,
  then the changer is built and the three phases run in order.
\<close>

definition main :: "string \<Rightarrow> string \<Rightarrow> failures \<Rightarrow> string option \<Rightarrow> directory \<Rightarrow> run" where
  "main old new fails input dir =
     (if old = [] \<or> new = [] then (Inl Exit, [], dir)
      else case NewDomainChanger fails old new dir of
             Inl e \<Rightarrow> (Inl e, [], dir)
           | Inr dc \<Rightarrow>
               then_run (ChangePrimaryDomain dc fails input dir) (\<lambda>dir'. passes dc fails dir'))"

section \<open>Specification predicates\<close>

text \<open>A service that answers every request.\<close>

definition no_failure :: failures where
  "no_failure r = False"

text \<open>A service that fails exactly one request.\<close>

definition fails_only :: "request \<Rightarrow> failures" where
  "fails_only r r' = (r' = r)"


text \<open>An address reaches a principal when it is its primary address or one of its aliases.\<close>

definition reachable :: "string \<Rightarrow> Principal \<Rightarrow> bool" where
  "reachable a p = (a = PrimaryEmail p \<or> a \<in> set (Aliases p))"


text \<open>
  What a pass guarantees about the record \<open>q\<close> stored afterwards under the key of a record
  \<open>u\<close>: the key is the same, no alias is lost, and the primary address is the same when \<open>u\<close>
  was already on the new domain.
\<close>

definition kept :: "DomainChanger \<Rightarrow> Principal \<Rightarrow> Principal \<Rightarrow> bool" where
  "kept d u q =
     (Ident q = Ident u \<and> set (Aliases u) \<subseteq> set (Aliases q) \<and>
      (emailNewDomain d (PrimaryEmail u) = Inr (PrimaryEmail u) \<longrightarrow> PrimaryEmail q = PrimaryEmail u))"

text \<open>The requests a pass may issue on behalf of a listed record \<open>u\<close>.\<close>

definition request_for :: "DomainChanger \<Rightarrow> kind \<Rightarrow> Principal \<Rightarrow> request \<Rightarrow> bool" where
  "request_for d k u c =
     (case c of
        UpdateReq k' key e \<Rightarrow>
          k' = k \<and> key = Ident u \<and> emailNewDomain d (PrimaryEmail u) \<noteq> Inr (PrimaryEmail u)
      | AliasInsertReq k' key a \<Rightarrow>
          k' = k \<and> key = Ident u \<and> Aliases u \<noteq> [] \<and>
          list_ex (\<lambda>a0. emailNewDomain d a0 = Inr a) (Aliases u)
      | _ \<Rightarrow> False)"

text \<open>
  The shape of a pass over the listed records \<open>page\<close> of one kind: only the records of that
  kind are replaced, each by a record that \<open>kept\<close> relates to it, and every request is one for
  a listed record.
\<close>

definition pass_summary ::
  "DomainChanger \<Rightarrow> kind \<Rightarrow> Principal list \<Rightarrow> directory \<Rightarrow> request list \<Rightarrow> directory \<Rightarrow> bool" where
  "pass_summary d k page dir cs dir' =
     (\<exists>ps'. dir' = set_members k ps' dir \<and> list_all2 (kept d) (members k dir) ps' \<and>
        (\<forall>c\<in>set cs. \<exists>u\<in>set page. request_for d k u c))"

text \<open>
  One iteration of the loop of a pass in the form both loops have when the listed record \<open>u\<close>
  is the one the directory stores under its key: the answer of the update then is \<open>u\<close> with
  its address rewritten. \<open>rest\<close> is the remainder of the loop.
\<close>

definition iteration ::
  "kind \<Rightarrow> DomainChanger \<Rightarrow> failures \<Rightarrow> Principal \<Rightarrow> (directory \<Rightarrow> run) \<Rightarrow> directory \<Rightarrow> run" where
  "iteration k d fails u rest dir =
     (case emailNewDomain d (PrimaryEmail u) of
        Inl e \<Rightarrow> (Inl e, [], dir)
      | Inr e \<Rightarrow>
          if e = PrimaryEmail u then then_run (UpdateAliases k d fails u dir) rest
          else if fails (UpdateReq k (Ident u) e)
            then (Inl NilDereference, [UpdateReq k (Ident u) e], dir)
          else
            after [UpdateReq k (Ident u) e]
              (then_run
                 (UpdateAliases k d fails (u\<lparr>PrimaryEmail := e\<rparr>)
                    (set_members k (modify (Ident u) (\<lambda>q. q\<lparr>PrimaryEmail := e\<rparr>) (members k dir)) dir))
                 rest))"

section \<open>Example data\<close>

text \<open>The migration from \<^verbatim>\<open>old.com\<close> to \<^verbatim>\<open>new.com\<close>, and small directories to run it on.\<close>

definition old_to_new :: DomainChanger where
  "old_to_new =
     \<lparr>cust = \<lparr>CustId = ''C01'', CustomerDomain = ''old.com''\<rparr>,
      oldDomain = ''old.com'', newDomain = ''new.com''\<rparr>"

definition small_directory :: directory where
  "small_directory =
     \<lparr>customer = \<lparr>CustId = ''C01'', CustomerDomain = ''old.com''\<rparr>,
      users =
        [\<lparr>Ident = ''u1'', PrimaryEmail = ''alice@old.com'', Aliases = [''alice@old.com'']\<rparr>,
         \<lparr>Ident = ''u2'', PrimaryEmail = ''bob@old.com'', Aliases = [''robert@old.com'']\<rparr>,
         \<lparr>Ident = ''u3'', PrimaryEmail = ''carol@new.com'', Aliases = []\<rparr>],
      groups =
        [\<lparr>Ident = ''g1'', PrimaryEmail = ''team@old.com'',
          Aliases = [''team-alias@old.com'', ''team-alias@new.com'']\<rparr>]\<rparr>"

definition small_directory_after :: directory where
  "small_directory_after =
     \<lparr>customer = \<lparr>CustId = ''C01'', CustomerDomain = ''old.com''\<rparr>,
      users =
        [\<lparr>Ident = ''u1'', PrimaryEmail = ''alice@new.com'', Aliases = [''alice@old.com'']\<rparr>,
         \<lparr>Ident = ''u2'', PrimaryEmail = ''bob@new.com'',
          Aliases = [''robert@old.com'', ''robert@new.com'']\<rparr>,
         \<lparr>Ident = ''u3'', PrimaryEmail = ''carol@new.com'', Aliases = []\<rparr>],
      groups =
        [\<lparr>Ident = ''g1'', PrimaryEmail = ''team@new.com'',
          Aliases = [''team-alias@old.com'', ''team-alias@new.com'']\<rparr>]\<rparr>"

text \<open>The same migration when the customer's primary domain is the new one already.\<close>

definition already_new :: DomainChanger where
  "already_new =
     \<lparr>cust = \<lparr>CustId = ''C01'', CustomerDomain = ''new.com''\<rparr>,
      oldDomain = ''old.com'', newDomain = ''new.com''\<rparr>"

text \<open>Fifty-one users on the old domain, listed by address.\<close>

definition fifty_one_users :: directory where
  "fifty_one_users =
     \<lparr>customer = \<lparr>CustId = ''C01'', CustomerDomain = ''old.com''\<rparr>,
      users =
        map (\<lambda>c. \<lparr>Ident = [c], PrimaryEmail = c # ''@old.com'', Aliases = []\<rparr>)
          ''0123456789ABCDEFGHIJKLMNOPQRSTUVWXYZabcdefghijklmno'',
      groups = []\<rparr>"

text \<open>A single user with no alias, and a user with aliases on two other domains.\<close>

definition lone_user :: directory where
  "lone_user =
     \<lparr>customer = \<lparr>CustId = ''C01'', CustomerDomain = ''old.com''\<rparr>,
      users = [\<lparr>Ident = ''u4'', PrimaryEmail = ''dave@old.com'', Aliases = []\<rparr>],
      groups = []\<rparr>"

definition two_domains_user :: Principal where
  "two_domains_user =
     \<lparr>Ident = ''u5'', PrimaryEmail = ''al@new.com'', Aliases = [''a@x.com'', ''a@y.com'']\<rparr>"



section \<open>Splitting and joining\<close>

lemma Split_without_sep: "c \<notin> set s \<Longrightarrow> Split s c = [s]"
proof -
  assume "c \<notin> set s"
  then have d: "dropWhile (\<lambda>x. x \<noteq> c) s = []" by auto
  show ?thesis by (subst Split.simps) (simp add: d)
qed

lemma Split_at_first_sep:
  assumes "c \<notin> set l"
  shows "Split (l @ c # r) c = l # Split r c"
proof -
  from assms have "\<forall>x\<in>set l. x \<noteq> c" by auto
  then have d: "dropWhile (\<lambda>x. x \<noteq> c) (l @ c # r) = c # r"
    by simp
  from assms have "\<forall>x\<in>set l. x \<noteq> c" by auto
  then have t: "takeWhile (\<lambda>x. x \<noteq> c) (l @ c # r) = l"
    by simp
  show ?thesis by (subst Split.simps) (simp add: d t)
qed



lemma Split_parts_free: "\<forall>x\<in>set (Split s c). c \<notin> set x"
proof (induction s c rule: Split.induct)
  case (1 s c)
  show ?case
  proof (cases "dropWhile (\<lambda>x. x \<noteq> c) s")
    case Nil
    then have "c \<notin> set s" by (metis (mono_tags, lifting) dropWhile_eq_Nil_conv)
    then show ?thesis by (simp add: Split_without_sep)
  next
    case (Cons x rest)
    have "c \<notin> set (takeWhile (\<lambda>x. x \<noteq> c) s)"
      using set_takeWhileD by fastforce
    moreover have "Split s c = takeWhile (\<lambda>x. x \<noteq> c) s # Split rest c"
      by (subst Split.simps) (simp only: Cons list.case)
    ultimately show ?thesis using "1.IH" [OF Cons] by simp
  qed
qed

lemma Split_Join:
  "xs \<noteq> [] \<Longrightarrow> \<forall>x\<in>set xs. c \<notin> set x \<Longrightarrow> Split (Join xs [c]) c = xs"
proof (induction xs "[c]" rule: Join.induct)
  case 1
  then show ?case by simp
next
  case (2 x)
  then show ?case by (simp add: Split_without_sep)
next
  case (3 x y ys)
  then show ?case by (simp add: Split_at_first_sep)
qed

lemma changeEmailDomain_again:
  assumes "changeEmailDomain email domain = Inr e" and "CHR ''@'' \<notin> set domain"
  shows "changeEmailDomain e domain = Inr e"
proof -
  let ?ps = "Split email CHR ''@''"
  from assms(1) have len: "1 < length ?ps" and e: "e = Join (?ps[1 := domain]) ''@''"
    by (auto simp: changeEmailDomain_def Let_def split: if_splits)
  have free: "\<forall>x\<in>set (?ps[1 := domain]). CHR ''@'' \<notin> set x"
    using Split_parts_free [of email "CHR ''@''"] assms(2)
    by (auto dest!: set_update_subset_insert [THEN subsetD])
  from len have ne: "?ps[1 := domain] \<noteq> []" by auto
  have "Split e CHR ''@'' = ?ps[1 := domain]"
    unfolding e using Split_Join [OF ne free] by simp
  with len show ?thesis by (simp add: changeEmailDomain_def e)
qed


section \<open>Rewriting the domain segment\<close>

text \<open>
  C5 (as amended). For every address without \<^verbatim>\<open>@\<close>, \<^verbatim>\<open>changeEmailDomain\<close> returns no
  result: the split has one element, so the store at index 1 is out of range and the
  process panics. There is no error value for a malformed address.
\<close>

theorem changeEmailDomain_without_at:
  "CHR ''@'' \<notin> set email \<Longrightarrow> changeEmailDomain email domain = Inl IndexOutOfRange"
  by (simp add: changeEmailDomain_def Split_without_sep)

theorem changeEmailDomain_without_at_witness:
  "CHR ''@'' \<notin> set ''bob'' \<and> changeEmailDomain ''bob'' ''new.com'' = Inl IndexOutOfRange"
  using changeEmailDomain_without_at [of "''bob''" "''new.com''"] by simp

text \<open>C5, as stated, fails: the address below has no \<^verbatim>\<open>@\<close> and the store panics.\<close>

theorem changeEmailDomain_panics_example:
  "changeEmailDomain ''carol.new.com'' ''new.com'' = Inl IndexOutOfRange"
  by (simp add: changeEmailDomain_def Split_without_sep)

text \<open>
  C6. An address \<open>local @ domain\<close> with exactly one \<^verbatim>\<open>@\<close> is rewritten to the same local
  part, \<^verbatim>\<open>@\<close>, and the new domain.
\<close>

theorem emailNewDomain_keeps_local:
  assumes "CHR ''@'' \<notin> set local" and "CHR ''@'' \<notin> set domain"
  shows "emailNewDomain d (local @ ''@'' @ domain) = Inr (local @ ''@'' @ newDomain d)"
  using assms
  by (simp add: emailNewDomain_def changeEmailDomain_def Split_at_first_sep Split_without_sep)

theorem emailNewDomain_keeps_local_witness:
  "CHR ''@'' \<notin> set ''bob'' \<and> CHR ''@'' \<notin> set ''old.com'' \<and>
   emailNewDomain \<lparr>cust = \<lparr>CustId = ''C1'', CustomerDomain = ''old.com''\<rparr>,
                    oldDomain = ''old.com'', newDomain = ''new.com''\<rparr> (''bob'' @ ''@'' @ ''old.com'')
     = Inr ''bob@new.com''"
  using emailNewDomain_keeps_local [of "''bob''" "''old.com''"
      "\<lparr>cust = \<lparr>CustId = ''C1'', CustomerDomain = ''old.com''\<rparr>,
        oldDomain = ''old.com'', newDomain = ''new.com''\<rparr>"]
  by simp

section \<open>Runs and their composition\<close>

lemma after_simps [simp]:
  "after cs (out, cs', dir) = (out, cs @ cs', dir)"
  by (simp add: after_def)

lemma after_Nil [simp]: "after [] r = r"
  by (cases r) simp

lemma after_after [simp]: "after cs (after cs' r) = after (cs @ cs') r"
  by (cases r) simp

lemma fst_after: "fst (after cs r) = fst r"
  by (cases r rule: prod_cases3) simp

lemma requests_after: "fst (snd (after cs r)) = cs @ fst (snd r)"
  by (cases r rule: prod_cases3) simp

lemma then_run_simps [simp]:
  "then_run (Inl e, cs, dir) f = (Inl e, cs, dir)"
  "then_run (Inr x, cs, dir) f = after cs (f dir)"
  by (simp_all add: then_run_def)

lemma then_run_after: "then_run (after cs r) f = after cs (then_run r f)"
  by (cases r rule: prod_cases3) (simp add: then_run_def split: sum.splits)

lemma then_run_assoc:
  "then_run (then_run r f) g = then_run r (\<lambda>dir. then_run (f dir) g)"
proof (cases r rule: prod_cases3)
  case (fields out cs dir)
  then show ?thesis by (cases out) (simp_all add: then_run_after)
qed

lemma then_run_done: "then_run r (\<lambda>dir. (Inr (), [], dir)) = r"
proof (cases r rule: prod_cases3)
  case (fields out cs dir)
  then show ?thesis by (cases out) simp_all
qed


section \<open>The directory operations\<close>

lemma hasAlias_set: "hasAlias alias aliases \<longleftrightarrow> alias \<in> set aliases"
  by (induction aliases) auto


lemma members_set_members [simp]:
  "members k (set_members k ps dir) = ps"
  by (cases k) simp_all

lemma members_set_members_other [simp]:
  "k' \<noteq> k \<Longrightarrow> members k' (set_members k ps dir) = members k' dir"
  by (cases k; cases k') simp_all

lemma set_members_twice [simp]:
  "set_members k ps (set_members k ps' dir) = set_members k ps dir"
  by (cases k) simp_all

lemma set_members_same: "members k dir = ps \<Longrightarrow> set_members k ps dir = dir"
  by (cases k) auto

lemma customer_set_members [simp]: "customer (set_members k ps dir) = customer dir"
  by (cases k) simp_all

lemma modify_at:
  assumes "key \<notin> Ident ` set pre" and "key \<notin> Ident ` set post" and "Ident q = key"
  shows "modify key f (pre @ q # post) = pre @ f q # post"
proof -
  from assms(1) have "map (\<lambda>q. if Ident q = key then f q else q) pre = pre"
    by (induction pre) auto
  moreover from assms(2) have "map (\<lambda>q. if Ident q = key then f q else q) post = post"
    by (induction post) auto
  ultimately show ?thesis using assms(3) by (simp add: modify_def)
qed

lemma find_at:
  assumes "key \<notin> Ident ` set pre" and "Ident q = key"
  shows "find (\<lambda>q. Ident q = key) (pre @ q # post) = Some q"
  using assms by (induction pre) auto



lemma apiAliasInsert_at:
  assumes "members k dir = pre @ q # post" and "Ident q = key"
    and "key \<notin> Ident ` set pre" and "key \<notin> Ident ` set post" and "\<not> fails (AliasInsertReq k key a)"
  shows "apiAliasInsert fails k key a dir =
           (Inr a, set_members k (pre @ q\<lparr>Aliases := add_alias a (Aliases q)\<rparr> # post) dir)"
  using assms by (simp add: apiAliasInsert_def find_at modify_at)

lemma apiUpdate_at:
  assumes "members k dir = pre @ q # post" and "Ident q = key"
    and "key \<notin> Ident ` set pre" and "key \<notin> Ident ` set post"
    and "\<not> fails (UpdateReq k key (PrimaryEmail p))"
  shows "apiUpdate fails k key p dir =
           (Inr (q\<lparr>PrimaryEmail := PrimaryEmail p\<rparr>),
            set_members k (pre @ q\<lparr>PrimaryEmail := PrimaryEmail p\<rparr> # post) dir)"
  using assms by (simp add: apiUpdate_def find_at modify_at)


section \<open>The alias pass on one record\<close>

lemma emailNewDomain_again:
  "emailNewDomain d a = Inr b \<Longrightarrow> CHR ''@'' \<notin> set (newDomain d) \<Longrightarrow> emailNewDomain d b = Inr b"
  unfolding emailNewDomain_def by (rule changeEmailDomain_again)






lemma then_run_cases:
  assumes "then_run r f = (out, cs, dir')"
  obtains (stopped) e where "r = (Inl e, cs, dir')" and "out = Inl e"
  | (went_on) cs1 dir1 cs2 where "r = (Inr (), cs1, dir1)" and "f dir1 = (out, cs2, dir')"
      and "cs = cs1 @ cs2"
proof (cases r rule: prod_cases3)
  case (fields o1 cs1 dir1)
  show ?thesis
  proof (cases o1)
    case (Inl e)
    with fields assms have "(Inl e, cs1, dir1) = (out, cs, dir')" by simp
    then have "r = (Inl e, cs, dir')" and "out = Inl e" using fields Inl by simp_all
    then show ?thesis by (rule stopped)
  next
    case (Inr x)
    obtain o2 cs2 dir2 where f: "f dir1 = (o2, cs2, dir2)" by (cases "f dir1" rule: prod_cases3)
    with fields Inr assms have "(o2, cs1 @ cs2, dir2) = (out, cs, dir')" by simp
    then have "r = (Inr (), cs1, dir1)" and "f dir1 = (out, cs2, dir')" and "cs = cs1 @ cs2"
      using fields Inr f by simp_all
    then show ?thesis by (rule went_on)
  qed
qed

lemma after_cases:
  assumes "after cs0 r = (out, cs, dir')"
  obtains cs1 where "r = (out, cs1, dir')" and "cs = cs0 @ cs1"
  using assms by (cases r rule: prod_cases3) auto

lemma list_all2_left: "list_all2 P xs ys \<Longrightarrow> x \<in> set xs \<Longrightarrow> \<exists>y\<in>set ys. P x y"
  by (induction rule: list_all2_induct) auto

lemma list_all2_right: "list_all2 P xs ys \<Longrightarrow> y \<in> set ys \<Longrightarrow> \<exists>x\<in>set xs. P x y"
  by (induction rule: list_all2_induct) auto

lemma same_key_same_record:
  assumes "distinct (map Ident ps)" and "u \<in> set ps" and "v \<in> set ps" and "Ident v = Ident u"
  shows "v = u"
  using assms by (meson distinct_map inj_on_def)







lemma fst_then_run:
  "fst r = Inr () \<Longrightarrow> fst (then_run r f) = fst (f (snd (snd r)))"
  by (cases r rule: prod_cases3) (simp add: fst_after)

lemma apiAliasInsert_shape:
  assumes "members k dir = pre @ q # post" and "Ident q = key"
    and "key \<notin> Ident ` set pre" and "key \<notin> Ident ` set post"
  shows "\<exists>q1. snd (apiAliasInsert fails k key a dir) = set_members k (pre @ q1 # post) dir \<and>
           Ident q1 = Ident q \<and> PrimaryEmail q1 = PrimaryEmail q \<and>
           set (Aliases q) \<subseteq> set (Aliases q1)"
proof (cases "fails (AliasInsertReq k key a)")
  case True
  with assms(1) have "snd (apiAliasInsert fails k key a dir) = set_members k (pre @ q # post) dir"
    by (simp add: apiAliasInsert_def set_members_same)
  then show ?thesis by blast
next
  case False
  have "set (Aliases q) \<subseteq> set (add_alias a (Aliases q))" by (auto simp: add_alias_def)
  with False apiAliasInsert_at [of k dir pre q post key fails a] assms show ?thesis
    by (intro exI [of _ "q\<lparr>Aliases := add_alias a (Aliases q)\<rparr>"]) simp
qed

lemma UpdateAliases_loop_shape:
  assumes "members k dir = pre @ q # post" and "Ident q = Ident u"
    and "Ident u \<notin> Ident ` set pre" and "Ident u \<notin> Ident ` set post"
    and "UpdateAliases_loop k d fails u old as dir = (out, cs, dir')"
  shows "\<exists>q'. dir' = set_members k (pre @ q' # post) dir \<and> Ident q' = Ident q \<and>
           PrimaryEmail q' = PrimaryEmail q \<and> set (Aliases q) \<subseteq> set (Aliases q') \<and>
           (\<forall>c\<in>set cs. \<exists>a. c = AliasInsertReq k (Ident u) a \<and>
              (\<exists>a0\<in>set as. emailNewDomain d a0 = Inr a))"
  using assms
proof (induction as arbitrary: dir q cs)
  case Nil
  then have "set_members k (pre @ q # post) dir = dir'" and "cs = []"
    by (simp_all add: set_members_same)
  then show ?case by (intro exI [of _ q]) simp
next
  case (Cons a as)
  have stop: ?case if "dir' = dir" and "cs = []"
  proof -
    from Cons.prems(1) have "set_members k (pre @ q # post) dir = dir"
      by (simp add: set_members_same)
    with that show ?thesis by (intro exI [of _ q]) simp
  qed
  have later: ?case
    if "UpdateAliases_loop k d fails u old as dir = (out, cs, dir')"
  proof -
    from Cons.IH [OF Cons.prems(1-4) that]
    obtain q' where q': "dir' = set_members k (pre @ q' # post) dir" "Ident q' = Ident q"
      "PrimaryEmail q' = PrimaryEmail q" "set (Aliases q) \<subseteq> set (Aliases q')"
      "\<forall>c\<in>set cs. \<exists>a. c = AliasInsertReq k (Ident u) a \<and>
              (\<exists>a0\<in>set as. emailNewDomain d a0 = Inr a)" by blast
    from q'(5) have "\<forall>c\<in>set cs. \<exists>b. c = AliasInsertReq k (Ident u) b \<and>
              (\<exists>a0\<in>set (a # as). emailNewDomain d a0 = Inr b)" by fastforce
    with q'(1-4) show ?thesis by blast
  qed
  show ?case
  proof (cases "a \<noteq> old")
    case False
    with Cons.prems have "UpdateAliases_loop k d fails u old as dir = (out, cs, dir')" by simp
    then show ?thesis by (rule later)
  next
    case True
    show ?thesis
    proof (cases "emailNewDomain d a")
      case (Inl e)
      with True Cons.prems(5) show ?thesis by (intro stop) auto
    next
      case (Inr newA)
      show ?thesis
      proof (cases "hasAlias newA (Aliases u)")
        case True
        with \<open>a \<noteq> old\<close> Inr Cons.prems
        have "UpdateAliases_loop k d fails u old as dir = (out, cs, dir')" by simp
        then show ?thesis by (rule later)
      next
        case False
        let ?dir1 = "snd (apiAliasInsert fails k (Ident u) newA dir)"
        from apiAliasInsert_shape [OF Cons.prems(1,2,3,4), of fails newA]
        obtain q1 where q1: "?dir1 = set_members k (pre @ q1 # post) dir" "Ident q1 = Ident q"
          "PrimaryEmail q1 = PrimaryEmail q" "set (Aliases q) \<subseteq> set (Aliases q1)" by blast
        from False \<open>a \<noteq> old\<close> Inr Cons.prems(5)
        have "after [AliasInsertReq k (Ident u) newA] (UpdateAliases_loop k d fails u old as ?dir1)
                = (out, cs, dir')"
          by (simp split: prod.splits)
        then obtain cs1 where run: "UpdateAliases_loop k d fails u old as ?dir1 = (out, cs1, dir')"
          and cs: "cs = [AliasInsertReq k (Ident u) newA] @ cs1" by (rule after_cases)
        have m: "members k ?dir1 = pre @ q1 # post" using q1(1) by simp
        have i: "Ident q1 = Ident u" using q1(2) Cons.prems(2) by simp
        from Cons.IH [OF m i Cons.prems(3,4) run]
        obtain q' where q': "dir' = set_members k (pre @ q' # post) ?dir1" "Ident q' = Ident q1"
          "PrimaryEmail q' = PrimaryEmail q1" "set (Aliases q1) \<subseteq> set (Aliases q')"
          "\<forall>c\<in>set cs1. \<exists>a. c = AliasInsertReq k (Ident u) a \<and>
              (\<exists>a0\<in>set as. emailNewDomain d a0 = Inr a)"
          by blast
        from q'(1) q1(1) have d: "dir' = set_members k (pre @ q' # post) dir" by simp
        have r: "\<forall>c\<in>set cs. \<exists>b. c = AliasInsertReq k (Ident u) b \<and>
              (\<exists>a0\<in>set (a # as). emailNewDomain d a0 = Inr b)"
        proof
          fix c assume "c \<in> set cs"
          with cs have "c = AliasInsertReq k (Ident u) newA \<or> c \<in> set cs1" by auto
          then show "\<exists>b. c = AliasInsertReq k (Ident u) b \<and>
              (\<exists>a0\<in>set (a # as). emailNewDomain d a0 = Inr b)"
          proof
            assume "c = AliasInsertReq k (Ident u) newA"
            with Inr show ?thesis by auto
          next
            assume "c \<in> set cs1"
            with q'(5) show ?thesis by fastforce
          qed
        qed
        from d q'(2,3,4) q1(2,3,4) r show ?thesis by (intro exI [of _ q']) auto
      qed
    qed
  qed
qed

lemma UpdateAliases_shape:
  assumes m: "members k dir = pre @ u # post"
    and pre: "Ident u \<notin> Ident ` set pre" and post: "Ident u \<notin> Ident ` set post"
    and run: "UpdateAliases k d fails u dir = (out, cs, dir')"
  shows "\<exists>q'. dir' = set_members k (pre @ q' # post) dir \<and> Ident q' = Ident u \<and>
           PrimaryEmail q' = PrimaryEmail u \<and> set (Aliases u) \<subseteq> set (Aliases q') \<and>
           (\<forall>c\<in>set cs. \<exists>a. c = AliasInsertReq k (Ident u) a \<and> Aliases u \<noteq> [] \<and>
              (\<exists>a0\<in>set (Aliases u). emailNewDomain d a0 = Inr a))"
proof (cases "emailOldDomain d (PrimaryEmail u)")
  case (Inl e)
  with run m have "set_members k (pre @ u # post) dir = dir'" and "cs = []"
    by (simp_all add: UpdateAliases_def set_members_same)
  then show ?thesis by (intro exI [of _ u]) simp
next
  case (Inr old)
  with run have loop: "UpdateAliases_loop k d fails u old (Aliases u) dir = (out, cs, dir')"
    by (simp add: UpdateAliases_def)
  from UpdateAliases_loop_shape [OF m refl pre post loop]
  obtain q' where q': "dir' = set_members k (pre @ q' # post) dir" "Ident q' = Ident u"
    "PrimaryEmail q' = PrimaryEmail u" "set (Aliases u) \<subseteq> set (Aliases q')"
    "\<forall>c\<in>set cs. \<exists>a. c = AliasInsertReq k (Ident u) a \<and>
       (\<exists>a0\<in>set (Aliases u). emailNewDomain d a0 = Inr a)"
    by blast
  from q'(5) have "\<forall>c\<in>set cs. \<exists>a. c = AliasInsertReq k (Ident u) a \<and> Aliases u \<noteq> [] \<and>
              (\<exists>a0\<in>set (Aliases u). emailNewDomain d a0 = Inr a)" by fastforce
  with q'(1-4) show ?thesis by (intro exI [of _ q']) simp
qed

section \<open>One iteration of a pass\<close>

lemma stored_at:
  assumes "distinct (map Ident ps)" and "u \<in> set ps"
  obtains pre post where "ps = pre @ u # post"
    and "Ident u \<notin> Ident ` set pre" and "Ident u \<notin> Ident ` set post"
proof -
  from assms(2) obtain pre post where ps: "ps = pre @ u # post" by (auto dest: split_list)
  with assms(1) have "Ident u \<notin> Ident ` set pre" and "Ident u \<notin> Ident ` set post" by auto
  with ps that show ?thesis by blast
qed

lemma kept_refl: "kept d u u"
  by (simp add: kept_def)

lemma kept_trans: "kept d u q \<Longrightarrow> kept d q r \<Longrightarrow> kept d u r"
  by (auto simp: kept_def)

lemma list_all2_kept_trans:
  "list_all2 (kept d) xs ys \<Longrightarrow> list_all2 (kept d) ys zs \<Longrightarrow> list_all2 (kept d) xs zs"
  by (rule list_all2_trans [of "kept d" "kept d" "kept d"]) (auto intro: kept_trans)

lemma list_all2_kept_at:
  "kept d u q \<Longrightarrow> list_all2 (kept d) (pre @ u # post) (pre @ q # post)"
  by (intro list_all2_appendI) (simp_all add: list.rel_refl kept_refl)

lemma UpdateUsers_loop_iteration:
  assumes "distinct (map Ident (members User dir))" and "u \<in> set (members User dir)"
  shows "UpdateUsers_loop d fails (u # us) dir
           = iteration User d fails u (UpdateUsers_loop d fails us) dir"
proof (cases "emailNewDomain d (PrimaryEmail u)")
  case (Inl e)
  then show ?thesis by (simp add: iteration_def)
next
  case (Inr e)
  from assms obtain pre post where m: "members User dir = pre @ u # post"
    and n: "Ident u \<notin> Ident ` set pre" "Ident u \<notin> Ident ` set post" by (rule stored_at)
  show ?thesis
  proof (cases "e \<noteq> PrimaryEmail u \<and> \<not> fails (UpdateReq User (Ident u) e)")
    case True
    then have ok: "\<not> fails (UpdateReq User (Ident u) (PrimaryEmail (u\<lparr>PrimaryEmail := e\<rparr>)))" by simp
    from apiUpdate_at [of User dir pre u post "Ident u" fails "u\<lparr>PrimaryEmail := e\<rparr>"] m n ok
    have "apiUpdate fails User (Ident u) (u\<lparr>PrimaryEmail := e\<rparr>) dir =
      (Inr (u\<lparr>PrimaryEmail := e\<rparr>), set_members User (pre @ u\<lparr>PrimaryEmail := e\<rparr> # post) dir)"
      by simp
    moreover have "modify (Ident u) (\<lambda>q. q\<lparr>PrimaryEmail := e\<rparr>) (members User dir)
        = pre @ u\<lparr>PrimaryEmail := e\<rparr> # post"
      using m n by (simp add: modify_at)
    ultimately show ?thesis using Inr True
      by (simp add: iteration_def UpdateUserAliases_def)
  next
    case False
    with Inr show ?thesis
      by (auto simp: iteration_def UpdateUserAliases_def apiUpdate_def)
  qed
qed

lemma UpdateGroups_loop_iteration:
  assumes "distinct (map Ident (members Group dir))" and "g \<in> set (members Group dir)"
  shows "UpdateGroups_loop d fails (g # gs) dir
           = iteration Group d fails g (UpdateGroups_loop d fails gs) dir"
proof (cases "emailNewDomain d (PrimaryEmail g)")
  case (Inl e)
  then show ?thesis by (simp add: iteration_def)
next
  case (Inr e)
  from assms obtain pre post where m: "members Group dir = pre @ g # post"
    and n: "Ident g \<notin> Ident ` set pre" "Ident g \<notin> Ident ` set post" by (rule stored_at)
  show ?thesis
  proof (cases "e \<noteq> PrimaryEmail g \<and> \<not> fails (UpdateReq Group (Ident g) e)")
    case True
    then have ok: "\<not> fails (UpdateReq Group (Ident g) (PrimaryEmail (g\<lparr>PrimaryEmail := e\<rparr>)))" by simp
    from apiUpdate_at [of Group dir pre g post "Ident g" fails "g\<lparr>PrimaryEmail := e\<rparr>"] m n ok
    have "apiUpdate fails Group (Ident g) (g\<lparr>PrimaryEmail := e\<rparr>) dir =
      (Inr (g\<lparr>PrimaryEmail := e\<rparr>), set_members Group (pre @ g\<lparr>PrimaryEmail := e\<rparr> # post) dir)"
      by simp
    moreover have "modify (Ident g) (\<lambda>q. q\<lparr>PrimaryEmail := e\<rparr>) (members Group dir)
        = pre @ g\<lparr>PrimaryEmail := e\<rparr> # post"
      using m n by (simp add: modify_at)
    ultimately show ?thesis using Inr True
      by (simp add: iteration_def UpdateGroupAliases_def)
  next
    case False
    with Inr show ?thesis
      by (auto simp: iteration_def UpdateGroupAliases_def apiUpdate_def)
  qed
qed

text \<open>What one iteration does, case by case.\<close>

lemma iteration_cases:
  assumes dis: "distinct (map Ident (members k dir))" and u: "u \<in> set (members k dir)"
    and run: "iteration k d fails u rest dir = (out, cs, dir')"
  obtains (panicked) e0 where "emailNewDomain d (PrimaryEmail u) = Inl e0"
      and "dir' = dir" and "cs = []" and "out = Inl e0"
  | (refused) e where "emailNewDomain d (PrimaryEmail u) = Inr e" and "e \<noteq> PrimaryEmail u"
      and "fails (UpdateReq k (Ident u) e)"
      and "dir' = dir" and "cs = [UpdateReq k (Ident u) e]" and "out = Inl NilDereference"
  | (stopped) e pre post q' e' csa where "emailNewDomain d (PrimaryEmail u) = Inr e"
      and "members k dir = pre @ u # post"
      and "Ident u \<notin> Ident ` set pre" and "Ident u \<notin> Ident ` set post"
      and "dir' = set_members k (pre @ q' # post) dir" and "Ident q' = Ident u"
      and "PrimaryEmail q' = e" and "set (Aliases u) \<subseteq> set (Aliases q')"
      and "\<forall>c\<in>set cs. request_for d k u c" and "out = Inl e'"
      and "UpdateAliases k d fails (u\<lparr>PrimaryEmail := e\<rparr>)
              (set_members k (pre @ u\<lparr>PrimaryEmail := e\<rparr> # post) dir) = (Inl e', csa, dir')"
  | (went_on) e pre post q' dir2 cs1 cs2 csa where "emailNewDomain d (PrimaryEmail u) = Inr e"
      and "members k dir = pre @ u # post"
      and "Ident u \<notin> Ident ` set pre" and "Ident u \<notin> Ident ` set post"
      and "dir2 = set_members k (pre @ q' # post) dir" and "Ident q' = Ident u"
      and "PrimaryEmail q' = e" and "set (Aliases u) \<subseteq> set (Aliases q')"
      and "\<forall>c\<in>set cs1. request_for d k u c"
      and "rest dir2 = (out, cs2, dir')" and "cs = cs1 @ cs2"
      and "UpdateAliases k d fails (u\<lparr>PrimaryEmail := e\<rparr>)
              (set_members k (pre @ u\<lparr>PrimaryEmail := e\<rparr> # post) dir) = (Inr (), csa, dir2)"
proof (cases "emailNewDomain d (PrimaryEmail u)")
  case (Inl e0)
  with run have "dir' = dir" "cs = []" "out = Inl e0" by (simp_all add: iteration_def)
  with Inl show ?thesis by (rule panicked)
next
  case (Inr e)
  from dis u obtain pre post where m: "members k dir = pre @ u # post"
    and n: "Ident u \<notin> Ident ` set pre" "Ident u \<notin> Ident ` set post" by (rule stored_at)
  let ?u1 = "u\<lparr>PrimaryEmail := e\<rparr>"
  let ?dir1 = "set_members k (pre @ ?u1 # post) dir"
  let ?cs0 = "if e = PrimaryEmail u then [] else [UpdateReq k (Ident u) e]"
  have req0: "\<forall>c\<in>set ?cs0. request_for d k u c"
    using Inr by (auto simp: request_for_def)
  show ?thesis
  proof (cases "e \<noteq> PrimaryEmail u \<and> fails (UpdateReq k (Ident u) e)")
    case True
    with Inr run have "dir' = dir" and "cs = [UpdateReq k (Ident u) e]" and "out = Inl NilDereference"
      by (auto simp: iteration_def)
    with Inr True show ?thesis by (intro refused [of e]) auto
  next
    case False
    have mod: "modify (Ident u) (\<lambda>q. q\<lparr>PrimaryEmail := e\<rparr>) (members k dir) = pre @ ?u1 # post"
      using m n by (simp add: modify_at)
    have same: "?dir1 = dir" if "e = PrimaryEmail u"
    proof -
      from that have "?u1 = u" by simp
      with m show ?thesis by (simp add: set_members_same)
    qed
    have "\<exists>cs1. then_run (UpdateAliases k d fails ?u1 ?dir1) rest = (out, cs1, dir') \<and> cs = ?cs0 @ cs1"
    proof (cases "e = PrimaryEmail u")
      case True
      then have "?u1 = u" by simp
      with True same Inr run show ?thesis by (simp add: iteration_def)
    next
      case ne: False
      with False Inr run mod
      have "after [UpdateReq k (Ident u) e] (then_run (UpdateAliases k d fails ?u1 ?dir1) rest)
              = (out, cs, dir')"
        by (simp add: iteration_def)
      then show ?thesis using ne by (auto elim: after_cases)
    qed
    then obtain cs1 where tail: "then_run (UpdateAliases k d fails ?u1 ?dir1) rest = (out, cs1, dir')"
      and cs: "cs = ?cs0 @ cs1" by blast
    have m1: "members k ?dir1 = pre @ ?u1 # post" by simp
    have al: "\<exists>q'. dir2 = set_members k (pre @ q' # post) dir \<and> Ident q' = Ident u \<and>
                PrimaryEmail q' = e \<and> set (Aliases u) \<subseteq> set (Aliases q') \<and>
                (\<forall>c\<in>set csa. request_for d k u c)"
      if "UpdateAliases k d fails ?u1 ?dir1 = (o2, csa, dir2)" for o2 csa dir2
    proof -
      from UpdateAliases_shape [OF m1 _ _ that] n
      obtain q' where q': "dir2 = set_members k (pre @ q' # post) ?dir1"
        "Ident q' = Ident u" "PrimaryEmail q' = e" "set (Aliases u) \<subseteq> set (Aliases q')"
        "\<forall>c\<in>set csa. \<exists>a. c = AliasInsertReq k (Ident u) a \<and> Aliases u \<noteq> [] \<and>
              (\<exists>a0\<in>set (Aliases u). emailNewDomain d a0 = Inr a)"
        by auto
      have "request_for d k u c" if "c \<in> set csa" for c
      proof -
        from q'(5) that obtain a where "c = AliasInsertReq k (Ident u) a" "Aliases u \<noteq> []"
          "\<exists>a0\<in>set (Aliases u). emailNewDomain d a0 = Inr a" by blast
        then show ?thesis by (simp add: request_for_def list_ex_iff)
      qed
      then have "\<forall>c\<in>set csa. request_for d k u c" by blast
      with q'(1-4) show ?thesis by (intro exI [of _ q']) simp
    qed
    from tail show ?thesis
    proof (cases rule: then_run_cases)
      case s: (stopped e')
      from al [OF s(1)] obtain q' where q': "dir' = set_members k (pre @ q' # post) dir"
        "Ident q' = Ident u" "PrimaryEmail q' = e" "set (Aliases u) \<subseteq> set (Aliases q')"
        "\<forall>c\<in>set cs1. request_for d k u c" by blast
      from cs req0 q'(5) have r: "\<forall>c\<in>set cs. request_for d k u c" by auto
      show ?thesis
        by (rule stopped [OF Inr m n q'(1-4) r s(2) s(1)])
    next
      case w: (went_on csa dir2 csb)
      from al [OF w(1)] obtain q' where q': "dir2 = set_members k (pre @ q' # post) dir"
        "Ident q' = Ident u" "PrimaryEmail q' = e" "set (Aliases u) \<subseteq> set (Aliases q')"
        "\<forall>c\<in>set csa. request_for d k u c" by blast
      from req0 q'(5) have r: "\<forall>c\<in>set (?cs0 @ csa). request_for d k u c" by auto
      from cs w(3) have c: "cs = (?cs0 @ csa) @ csb" by simp
      show ?thesis
        by (rule went_on [OF Inr m n q'(1-4) r w(2) c w(1)])
    qed
  qed
qed

section \<open>The loop of a pass, whatever the order of the page\<close>

lemma still_stored:
  assumes "distinct (map Ident (u # us))" and "set (u # us) \<subseteq> set (pre @ u # post)"
  shows "set us \<subseteq> set (pre @ q' # post)"
proof
  fix v assume v: "v \<in> set us"
  then have "Ident v \<in> Ident ` set us" by (rule imageI)
  moreover from assms(1) have "Ident u \<notin> Ident ` set us" by simp
  ultimately have "v \<noteq> u" by blast
  moreover from v have "v \<in> set (u # us)" by simp
  with assms(2) have "v \<in> set (pre @ u # post)" by (rule subsetD)
  ultimately show "v \<in> set (pre @ q' # post)" by simp
qed

lemma same_keys_at:
  "Ident q' = Ident u \<Longrightarrow> map Ident (pre @ q' # post) = map Ident (pre @ u # post)"
  by simp

lemma loop_shape:
  fixes loop :: "Principal list \<Rightarrow> directory \<Rightarrow> run"
  assumes nil: "\<And>dir. loop [] dir = (Inr (), [], dir)"
    and cons: "\<And>u us dir. distinct (map Ident (members k dir)) \<Longrightarrow> u \<in> set (members k dir) \<Longrightarrow>
                 loop (u # us) dir = iteration k d fails u (loop us) dir"
    and "distinct (map Ident (members k dir))" and "distinct (map Ident us)"
    and "set us \<subseteq> set (members k dir)" and "loop us dir = (out, cs, dir')"
  shows "\<exists>ps'. dir' = set_members k ps' dir \<and> list_all2 (kept d) (members k dir) ps' \<and>
           (\<forall>c\<in>set cs. \<exists>u\<in>set us. request_for d k u c)"
  using assms(3-6)
proof (induction us arbitrary: dir cs)
  case Nil
  then have "set_members k (members k dir) dir = dir'" and "cs = []"
    by (simp_all add: nil set_members_same)
  then show ?case
    by (intro exI [of _ "members k dir"]) (simp add: list.rel_refl kept_refl)
next
  case (Cons u us)
  from Cons.prems(3) have u: "u \<in> set (members k dir)" by simp
  from Cons.prems(4) cons [OF Cons.prems(1) u]
  have run: "iteration k d fails u (loop us) dir = (out, cs, dir')" by simp
  have unchanged: ?case if "dir' = dir" and "\<forall>c\<in>set cs. request_for d k u c"
  proof -
    have "set_members k (members k dir) dir = dir" by (simp add: set_members_same)
    with that show ?thesis
      by (intro exI [of _ "members k dir"]) (simp add: list.rel_refl kept_refl)
  qed
  from Cons.prems(1) u run show ?case
  proof (cases rule: iteration_cases)
    case (panicked e0)
    then show ?thesis by (intro unchanged) simp_all
  next
    case (refused e)
    then show ?thesis by (intro unchanged) (simp_all add: request_for_def)
  next
    case s: (stopped e pre post q' e' csa)
    from s(1,6,7,8) have k: "kept d u q'" by (auto simp: kept_def)
    show ?thesis
    proof (intro exI [of _ "pre @ q' # post"] conjI)
      show "dir' = set_members k (pre @ q' # post) dir" by (rule s(5))
      show "list_all2 (kept d) (members k dir) (pre @ q' # post)"
        unfolding s(2) using k by (rule list_all2_kept_at)
      show "\<forall>c\<in>set cs. \<exists>u\<in>set (u # us). request_for d k u c" using s(9) by simp
    qed
  next
    case w: (went_on e pre post q' dir2 cs1 cs2 csa)
    from w(1,6,7,8) have k: "kept d u q'" by (auto simp: kept_def)
    have m2: "members k dir2 = pre @ q' # post" using w(5) by simp
    have d2: "distinct (map Ident (members k dir2))"
      using Cons.prems(1) w(2,6) by (simp add: m2)
    from Cons.prems(2) have du: "distinct (map Ident us)" by simp
    have s2: "set us \<subseteq> set (members k dir2)"
      unfolding m2
    proof (rule still_stored [of u])
      show "distinct (map Ident (u # us))" by (rule Cons.prems(2))
      show "set (u # us) \<subseteq> set (pre @ u # post)" using Cons.prems(3) unfolding w(2) .
    qed
    from Cons.IH [OF d2 du s2 w(10)]
    obtain ps' where ps': "dir' = set_members k ps' dir2" "list_all2 (kept d) (members k dir2) ps'"
      "\<forall>c\<in>set cs2. \<exists>u\<in>set us. request_for d k u c" by blast
    have "list_all2 (kept d) (members k dir) (members k dir2)"
      unfolding m2 w(2) using k by (rule list_all2_kept_at)
    then have rel: "list_all2 (kept d) (members k dir) ps'"
      using ps'(2) by (rule list_all2_kept_trans)
    show ?thesis
    proof (intro exI [of _ ps'] conjI)
      show "dir' = set_members k ps' dir" using ps'(1) w(5) by simp
      show "list_all2 (kept d) (members k dir) ps'" by (rule rel)
      show "\<forall>c\<in>set cs. \<exists>u\<in>set (u # us). request_for d k u c"
        using w(9,11) ps'(3) by auto
    qed
  qed
qed



section \<open>What a pass may touch\<close>

lemma page_keys:
  assumes "distinct (map Ident ps)"
  shows "distinct (map Ident (take n (sort_key PrimaryEmail ps)))"
proof -
  from assms have "distinct (map Ident (sort_key PrimaryEmail ps))" by (simp add: distinct_map)
  then have "distinct (take n (map Ident (sort_key PrimaryEmail ps)))" by (rule distinct_take)
  then show ?thesis by (simp only: take_map)
qed

lemma page_stored: "set (take n (sort_key PrimaryEmail ps)) \<subseteq> set ps"
  using set_take_subset [of n "sort_key PrimaryEmail ps"] by simp


lemma UpdateUsers_unfold:
  "UpdateUsers d fails dir =
     (if fails (ListReq User) then (Inl Exit, [], dir)
      else UpdateUsers_loop d fails (take 50 (sort_key PrimaryEmail (users dir))) dir)"
  by (cases "take 50 (sort_key PrimaryEmail (users dir))") (simp_all add: UpdateUsers_def apiList_def)

lemma UpdateGroups_unfold:
  "UpdateGroups d fails dir =
     (if fails (ListReq Group) then (Inl Exit, [], dir)
      else UpdateGroups_loop d fails (take 200 (groups dir)) dir)"
  by (cases "take 200 (groups dir)") (simp_all add: UpdateGroups_def apiList_def)

lemma pass_summary_nothing: "pass_summary d k page dir [] dir"
proof -
  have "set_members k (members k dir) dir = dir" by (simp add: set_members_same)
  then show ?thesis unfolding pass_summary_def
    by (intro exI [of _ "members k dir"]) (simp add: list.rel_refl kept_refl)
qed

lemma UpdateUsers_summary:
  assumes "distinct (map Ident (users dir))" and "UpdateUsers d fails dir = (out, cs, dir')"
  shows "pass_summary d User (take 50 (sort_key PrimaryEmail (users dir))) dir cs dir'"
proof (cases "fails (ListReq User)")
  case True
  with assms(2) have "cs = []" and "dir' = dir" by (simp_all add: UpdateUsers_unfold)
  then show ?thesis by (simp add: pass_summary_nothing)
next
  case False
  let ?page = "take 50 (sort_key PrimaryEmail (users dir))"
  from False assms(2) have loop: "UpdateUsers_loop d fails ?page dir = (out, cs, dir')"
    by (simp add: UpdateUsers_unfold)
  have d0: "distinct (map Ident (members User dir))" using assms(1) by simp
  have d1: "distinct (map Ident ?page)" using assms(1) by (rule page_keys)
  have s1: "set ?page \<subseteq> set (members User dir)" using page_stored [of 50 "users dir"] by simp
  from loop_shape [where loop = "UpdateUsers_loop d fails" and k = User and d = d and fails = fails,
      OF UpdateUsers_loop.simps(1) UpdateUsers_loop_iteration d0 d1 s1 loop]
  show ?thesis by (simp add: pass_summary_def)
qed

lemma UpdateGroups_summary:
  assumes "distinct (map Ident (groups dir))" and "UpdateGroups d fails dir = (out, cs, dir')"
  shows "pass_summary d Group (take 200 (groups dir)) dir cs dir'"
proof (cases "fails (ListReq Group)")
  case True
  with assms(2) have "cs = []" and "dir' = dir" by (simp_all add: UpdateGroups_unfold)
  then show ?thesis by (simp add: pass_summary_nothing)
next
  case False
  let ?page = "take 200 (groups dir)"
  from False assms(2) have loop: "UpdateGroups_loop d fails ?page dir = (out, cs, dir')"
    by (simp add: UpdateGroups_unfold)
  have d0: "distinct (map Ident (members Group dir))" using assms(1) by simp
  have d1: "distinct (map Ident ?page)" using assms(1) by (simp add: take_map [symmetric])
  have s1: "set ?page \<subseteq> set (members Group dir)" using set_take_subset [of 200 "groups dir"] by simp
  from loop_shape [where loop = "UpdateGroups_loop d fails" and k = Group and d = d and fails = fails,
      OF UpdateGroups_loop.simps(1) UpdateGroups_loop_iteration d0 d1 s1 loop]
  show ?thesis by (simp add: pass_summary_def)
qed

text \<open>What one pass does to the records and the requests of any kind.\<close>

lemma pass_summary_keeps:
  assumes "pass_summary d k0 page dir cs dir'"
  shows "list_all2 (kept d) (members k dir) (members k dir')"
proof -
  from assms obtain ps' where ps': "dir' = set_members k0 ps' dir"
    "list_all2 (kept d) (members k0 dir) ps'" unfolding pass_summary_def by blast
  show ?thesis
  proof (cases "k = k0")
    case True
    with ps' show ?thesis by simp
  next
    case False
    with ps'(1) have "members k dir' = members k dir" by simp
    then show ?thesis by (simp add: list.rel_refl kept_refl)
  qed
qed

lemma pass_summary_requests:
  assumes sum: "pass_summary d k0 page dir cs dir'"
    and page: "set page \<subseteq> set (members k0 dir)"
    and dis: "distinct (map Ident (members k dir))"
    and u: "u \<in> set (members k dir)"
    and c: "c \<in> set cs"
    and shape: "(\<exists>e. c = UpdateReq k (Ident u) e) \<or> (\<exists>a. c = AliasInsertReq k (Ident u) a)"
  shows "request_for d k u c"
proof -
  from sum c obtain v where v: "v \<in> set page" "request_for d k0 v c"
    unfolding pass_summary_def by blast
  from v(2) shape have same: "k0 = k" "Ident v = Ident u" by (auto simp: request_for_def)
  from v(1) page same(1) have "v \<in> set (members k dir)" by blast
  from same_key_same_record [OF dis u this same(2)] v(2) same(1) show ?thesis by simp
qed

lemma kept_keys: "list_all2 (kept d) ps ps' \<Longrightarrow> map Ident ps' = map Ident ps"
  by (induction rule: list_all2_induct) (simp_all add: kept_def)

text \<open>The same for the two passes in a row.\<close>

lemma passes_summary:
  assumes du: "distinct (map Ident (users dir))" and dg: "distinct (map Ident (groups dir))"
    and run: "passes d fails dir = (out, cs, dir')"
  shows "list_all2 (kept d) (members k dir) (members k dir')"
    and "u \<in> set (members k dir) \<Longrightarrow> c \<in> set cs \<Longrightarrow>
         (\<exists>e. c = UpdateReq k (Ident u) e) \<or> (\<exists>a. c = AliasInsertReq k (Ident u) a) \<Longrightarrow>
         request_for d k u c"
proof -
  have dk: "distinct (map Ident (members k dir))" using du dg by (cases k) simp_all
  obtain o1 cs1 dir1 where first: "UpdateUsers d fails dir = (o1, cs1, dir1)"
    by (cases "UpdateUsers d fails dir" rule: prod_cases3)
  let ?page1 = "take 50 (sort_key PrimaryEmail (users dir))"
  from UpdateUsers_summary [OF du first] have s1: "pass_summary d User ?page1 dir cs1 dir1" .
  have p1: "set ?page1 \<subseteq> set (members User dir)" using page_stored [of 50 "users dir"] by simp
  note k1 = pass_summary_keeps [OF s1]
  have r1: "request_for d k u c" if "u \<in> set (members k dir)" "c \<in> set cs1"
    "(\<exists>e. c = UpdateReq k (Ident u) e) \<or> (\<exists>a. c = AliasInsertReq k (Ident u) a)" for u c
    using s1 p1 dk that by (rule pass_summary_requests)
  from run have "then_run (UpdateUsers d fails dir) (\<lambda>dir'. UpdateGroups d fails dir') = (out, cs, dir')"
    by (simp add: passes_def)
  then have "list_all2 (kept d) (members k dir) (members k dir') \<and>
    (u \<in> set (members k dir) \<longrightarrow> c \<in> set cs \<longrightarrow>
       (\<exists>e. c = UpdateReq k (Ident u) e) \<or> (\<exists>a. c = AliasInsertReq k (Ident u) a) \<longrightarrow>
       request_for d k u c)"
  proof (cases rule: then_run_cases)
    case (stopped e)
    with first have "cs = cs1" "dir' = dir1" by simp_all
    with k1 [of k] r1 [of u c] show ?thesis by blast
  next
    case (went_on csa dira cs2)
    with first have eq: "csa = cs1" "dira = dir1" by simp_all
    from went_on(2) eq have second: "UpdateGroups d fails dir1 = (out, cs2, dir')" by simp
    have g1: "groups dir1 = groups dir"
      using s1 unfolding pass_summary_def by auto
    with dg have dg1: "distinct (map Ident (groups dir1))" by simp
    let ?page2 = "take 200 (groups dir1)"
    from UpdateGroups_summary [OF dg1 second] have s2: "pass_summary d Group ?page2 dir1 cs2 dir'" .
    have p2: "set ?page2 \<subseteq> set (members Group dir1)"
      using set_take_subset [of 200 "groups dir1"] by simp
    note k2 = pass_summary_keeps [OF s2]
    have cs: "set cs = set cs1 \<union> set cs2" using went_on(3) eq by simp
    have keeps: "list_all2 (kept d) (members k dir) (members k dir')"
      using k1 [of k] k2 [of k] by (rule list_all2_kept_trans)
    have reqs: "request_for d k u c" if u: "u \<in> set (members k dir)" and c: "c \<in> set cs2"
      and shape: "(\<exists>e. c = UpdateReq k (Ident u) e) \<or> (\<exists>a. c = AliasInsertReq k (Ident u) a)"
    proof -
      from s2 c obtain v where v: "v \<in> set ?page2" "request_for d Group v c"
        unfolding pass_summary_def by blast
      from v(2) shape have kg: "k = Group" by (auto simp: request_for_def)
      with u g1 have u1: "u \<in> set (members Group dir1)" by simp
      have dg1': "distinct (map Ident (members Group dir1))" using dg1 by simp
      from pass_summary_requests [OF s2 p2 dg1' u1 c] shape kg show ?thesis by simp
    qed
    from keeps r1 [of u c] reqs cs show ?thesis by blast
  qed
  then show "list_all2 (kept d) (members k dir) (members k dir')"
    and "u \<in> set (members k dir) \<Longrightarrow> c \<in> set cs \<Longrightarrow>
         (\<exists>e. c = UpdateReq k (Ident u) e) \<or> (\<exists>a. c = AliasInsertReq k (Ident u) a) \<Longrightarrow>
         request_for d k u c"
    by blast+
qed

text \<open>
  C8. Already current is a no-op for the rename. In a directory with unique keys, take any
  principal (user or group) whose primary address is left unchanged by the rewrite to the new
  domain. However the two passes end, and whatever the service fails, no update request is
  issued for that principal, its record is still there with the same primary address, and
  when it has no aliases no insert request is issued for it either.
\<close>

theorem already_current_left_alone:
  assumes du: "distinct (map Ident (users dir))" and dg: "distinct (map Ident (groups dir))"
    and u: "u \<in> set (members k dir)"
    and cur: "emailNewDomain d (PrimaryEmail u) = Inr (PrimaryEmail u)"
    and run: "passes d fails dir = (out, cs, dir')"
  shows "(\<forall>e. UpdateReq k (Ident u) e \<notin> set cs) \<and>
         (\<exists>q\<in>set (members k dir'). Ident q = Ident u) \<and>
         (\<forall>q\<in>set (members k dir'). Ident q = Ident u \<longrightarrow> PrimaryEmail q = PrimaryEmail u) \<and>
         (Aliases u = [] \<longrightarrow> (\<forall>a. AliasInsertReq k (Ident u) a \<notin> set cs))"
proof (intro conjI allI impI ballI notI)
  have dk: "distinct (map Ident (members k dir))" using du dg by (cases k) simp_all
  note keeps = passes_summary(1) [OF du dg run, of k]
  note reqs = passes_summary(2) [OF du dg run u]
  {
    fix e assume "UpdateReq k (Ident u) e \<in> set cs"
    then have "request_for d k u (UpdateReq k (Ident u) e)" by (rule reqs) blast
    with cur show False by (simp add: request_for_def)
  }
  {
    from list_all2_left [OF keeps u] obtain q where "q \<in> set (members k dir')" "kept d u q"
      by blast
    then show "\<exists>q\<in>set (members k dir'). Ident q = Ident u" by (auto simp: kept_def)
  }
  {
    fix q assume q: "q \<in> set (members k dir')" "Ident q = Ident u"
    from list_all2_right [OF keeps q(1)] obtain v where v: "v \<in> set (members k dir)" "kept d v q"
      by blast
    from v(2) q(2) have "Ident v = Ident u" by (simp add: kept_def)
    from same_key_same_record [OF dk u v(1) this] v(2) cur
    show "PrimaryEmail q = PrimaryEmail u" by (simp add: kept_def)
  }
  {
    fix a assume none: "Aliases u = []" and "AliasInsertReq k (Ident u) a \<in> set cs"
    then have "request_for d k u (AliasInsertReq k (Ident u) a)" by (intro reqs) blast+
    with none show False by (simp add: request_for_def)
  }
qed

text \<open>The user \<^verbatim>\<open>carol@new.com\<close> of the small directory is such a principal.\<close>

theorem already_current_left_alone_witness:
  "distinct (map Ident (users small_directory)) \<and>
   distinct (map Ident (groups small_directory)) \<and>
   \<lparr>Ident = ''u3'', PrimaryEmail = ''carol@new.com'', Aliases = []\<rparr>
     \<in> set (members User small_directory) \<and>
   emailNewDomain old_to_new ''carol@new.com'' = Inr ''carol@new.com'' \<and>
   (\<forall>e. UpdateReq User ''u3'' e \<notin> set (fst (snd (passes old_to_new no_failure small_directory)))) \<and>
   (\<forall>a. AliasInsertReq User ''u3'' a \<notin> set (fst (snd (passes old_to_new no_failure small_directory)))) \<and>
   (\<exists>q\<in>set (users (snd (snd (passes old_to_new no_failure small_directory)))).
      Ident q = ''u3'' \<and> PrimaryEmail q = ''carol@new.com'')"
proof -
  let ?u = "\<lparr>Ident = ''u3'', PrimaryEmail = ''carol@new.com'', Aliases = []\<rparr>"
  have du: "distinct (map Ident (users small_directory))" by code_simp
  have dg: "distinct (map Ident (groups small_directory))" by code_simp
  have u: "?u \<in> set (members User small_directory)" by code_simp
  have cur: "emailNewDomain old_to_new (PrimaryEmail ?u) = Inr (PrimaryEmail ?u)" by code_simp
  have run: "passes old_to_new no_failure small_directory =
      (fst (passes old_to_new no_failure small_directory),
       fst (snd (passes old_to_new no_failure small_directory)),
       snd (snd (passes old_to_new no_failure small_directory)))" by simp
  from already_current_left_alone [OF du dg u cur run]
  have "\<forall>e. UpdateReq User ''u3'' e \<notin> set (fst (snd (passes old_to_new no_failure small_directory)))"
    and "\<forall>a. AliasInsertReq User ''u3'' a \<notin> set (fst (snd (passes old_to_new no_failure small_directory)))"
    and "\<exists>q\<in>set (users (snd (snd (passes old_to_new no_failure small_directory)))).
            Ident q = ''u3'' \<and> PrimaryEmail q = ''carol@new.com''"
    by auto
  with du dg u cur show ?thesis by simp
qed

section \<open>Running the passes twice\<close>















section \<open>Reachability of addresses\<close>

text \<open>
  C2 (as amended). What a run preserves. In a directory with unique keys, take any principal
  (user or group). However the two passes end, and whatever the service fails, its record is
  still there afterwards, every alias it had is still an alias, and its primary address is
  the same if it was on the new domain already; so every address that reached it before the
  run still reaches it, except possibly the primary address of a principal that is renamed.
  For that address the tool does nothing: when the new domain has no \<^verbatim>\<open>@\<close>, no insert of the
  old primary address is issued, and for a principal without aliases no insert is issued at
  all.
\<close>

theorem aliases_stay_reachable:
  assumes du: "distinct (map Ident (users dir))" and dg: "distinct (map Ident (groups dir))"
    and u: "u \<in> set (members k dir)"
    and run: "passes d fails dir = (out, cs, dir')"
  shows "(\<exists>q\<in>set (members k dir'). Ident q = Ident u \<and>
            set (Aliases u) \<subseteq> set (Aliases q) \<and>
            (emailNewDomain d (PrimaryEmail u) = Inr (PrimaryEmail u) \<longrightarrow>
               PrimaryEmail q = PrimaryEmail u) \<and>
            (\<forall>a. reachable a u \<longrightarrow>
               a \<in> set (Aliases u) \<or> emailNewDomain d (PrimaryEmail u) = Inr (PrimaryEmail u) \<longrightarrow>
               reachable a q)) \<and>
         (CHR ''@'' \<notin> set (newDomain d) \<longrightarrow>
          emailNewDomain d (PrimaryEmail u) \<noteq> Inr (PrimaryEmail u) \<longrightarrow>
            AliasInsertReq k (Ident u) (PrimaryEmail u) \<notin> set cs) \<and>
         (Aliases u = [] \<longrightarrow> (\<forall>a. AliasInsertReq k (Ident u) a \<notin> set cs))"
proof (intro conjI impI allI notI)
  note keeps = passes_summary(1) [OF du dg run, of k]
  note reqs = passes_summary(2) [OF du dg run u]
  from list_all2_left [OF keeps u] obtain q where q: "q \<in> set (members k dir')" "kept d u q"
    by blast
  from q(2) have "Ident q = Ident u" and sub: "set (Aliases u) \<subseteq> set (Aliases q)"
    and cur: "emailNewDomain d (PrimaryEmail u) = Inr (PrimaryEmail u) \<longrightarrow>
               PrimaryEmail q = PrimaryEmail u"
    by (simp_all add: kept_def)
  moreover have "\<forall>a. reachable a u \<longrightarrow>
      a \<in> set (Aliases u) \<or> emailNewDomain d (PrimaryEmail u) = Inr (PrimaryEmail u) \<longrightarrow>
      reachable a q"
    using sub cur unfolding reachable_def by auto
  ultimately show "\<exists>q\<in>set (members k dir'). Ident q = Ident u \<and>
            set (Aliases u) \<subseteq> set (Aliases q) \<and>
            (emailNewDomain d (PrimaryEmail u) = Inr (PrimaryEmail u) \<longrightarrow>
               PrimaryEmail q = PrimaryEmail u) \<and>
            (\<forall>a. reachable a u \<longrightarrow>
               a \<in> set (Aliases u) \<or> emailNewDomain d (PrimaryEmail u) = Inr (PrimaryEmail u) \<longrightarrow>
               reachable a q)"
    using q(1) by blast
  {
    assume dom: "CHR ''@'' \<notin> set (newDomain d)"
      and ren: "emailNewDomain d (PrimaryEmail u) \<noteq> Inr (PrimaryEmail u)"
      and "AliasInsertReq k (Ident u) (PrimaryEmail u) \<in> set cs"
    then have "request_for d k u (AliasInsertReq k (Ident u) (PrimaryEmail u))"
      by (intro reqs) blast+
    then obtain a0 where "emailNewDomain d a0 = Inr (PrimaryEmail u)"
      by (auto simp: request_for_def list_ex_iff)
    from emailNewDomain_again [OF this dom] ren show False by simp
  }
  {
    fix a assume none: "Aliases u = []" and "AliasInsertReq k (Ident u) a \<in> set cs"
    then have "request_for d k u (AliasInsertReq k (Ident u) a)" by (intro reqs) blast+
    with none show False by (simp add: request_for_def)
  }
qed

text \<open>
  The user \<^verbatim>\<open>bob@old.com\<close> of the small directory keeps the alias \<^verbatim>\<open>robert@old.com\<close>, and
  no insert of \<^verbatim>\<open>bob@old.com\<close> is issued.
\<close>

theorem aliases_stay_reachable_witness:
  "distinct (map Ident (users small_directory)) \<and>
   distinct (map Ident (groups small_directory)) \<and>
   \<lparr>Ident = ''u2'', PrimaryEmail = ''bob@old.com'', Aliases = [''robert@old.com'']\<rparr>
     \<in> set (members User small_directory) \<and>
   passes old_to_new no_failure small_directory =
     (Inr (),
      [UpdateReq User ''u1'' ''alice@new.com'', UpdateReq User ''u2'' ''bob@new.com'',
       AliasInsertReq User ''u2'' ''robert@new.com'', UpdateReq Group ''g1'' ''team@new.com''],
      small_directory_after) \<and>
   (\<exists>q\<in>set (users small_directory_after).
      Ident q = ''u2'' \<and> ''robert@old.com'' \<in> set (Aliases q) \<and>
      reachable ''robert@old.com'' q) \<and>
   CHR ''@'' \<notin> set (newDomain old_to_new) \<and>
   emailNewDomain old_to_new ''bob@old.com'' \<noteq> Inr ''bob@old.com'' \<and>
   AliasInsertReq User ''u2'' ''bob@old.com'' \<notin>
     set [UpdateReq User ''u1'' ''alice@new.com'', UpdateReq User ''u2'' ''bob@new.com'',
          AliasInsertReq User ''u2'' ''robert@new.com'', UpdateReq Group ''g1'' ''team@new.com'']"
proof -
  let ?u = "\<lparr>Ident = ''u2'', PrimaryEmail = ''bob@old.com'', Aliases = [''robert@old.com'']\<rparr>"
  let ?cs = "[UpdateReq User ''u1'' ''alice@new.com'', UpdateReq User ''u2'' ''bob@new.com'',
       AliasInsertReq User ''u2'' ''robert@new.com'', UpdateReq Group ''g1'' ''team@new.com'']"
  have du: "distinct (map Ident (users small_directory))" by code_simp
  have dg: "distinct (map Ident (groups small_directory))" by code_simp
  have u: "?u \<in> set (members User small_directory)" by code_simp
  have run: "passes old_to_new no_failure small_directory = (Inr (), ?cs, small_directory_after)"
    by code_simp
  have dom: "CHR ''@'' \<notin> set (newDomain old_to_new)" by code_simp
  have ren: "emailNewDomain old_to_new (PrimaryEmail ?u) \<noteq> Inr (PrimaryEmail ?u)" by code_simp
  note stay = aliases_stay_reachable [OF du dg u run]
  from stay [THEN conjunct1]
  obtain q where q: "q \<in> set (members User small_directory_after)" "Ident q = Ident ?u"
    "set (Aliases ?u) \<subseteq> set (Aliases q)"
    "\<forall>a. reachable a ?u \<longrightarrow>
       a \<in> set (Aliases ?u) \<or> emailNewDomain old_to_new (PrimaryEmail ?u) = Inr (PrimaryEmail ?u) \<longrightarrow>
       reachable a q"
    by blast
  have "reachable ''robert@old.com'' ?u" by (simp add: reachable_def)
  with q(4) have "reachable ''robert@old.com'' q" by simp
  with q(1,2,3) have first: "\<exists>q\<in>set (users small_directory_after).
      Ident q = ''u2'' \<and> ''robert@old.com'' \<in> set (Aliases q) \<and> reachable ''robert@old.com'' q"
    by auto
  from stay [THEN conjunct2, THEN conjunct1, THEN mp, THEN mp, OF dom ren]
  have second: "AliasInsertReq User ''u2'' ''bob@old.com'' \<notin> set ?cs" by simp
  from ren have ren': "emailNewDomain old_to_new ''bob@old.com'' \<noteq> Inr ''bob@old.com''" by simp
  from du dg u run first dom ren' second show ?thesis by blast
qed

text \<open>
  C2, as stated, fails: a user with no alias is renamed and nothing else is requested. In the
  directory the run leaves behind, the old primary address is neither the primary address
  nor an alias.
\<close>

theorem old_primary_is_lost:
  "reachable ''dave@old.com'' \<lparr>Ident = ''u4'', PrimaryEmail = ''dave@old.com'', Aliases = []\<rparr> \<and>
   passes old_to_new no_failure lone_user =
     (Inr (), [UpdateReq User ''u4'' ''dave@new.com''],
      lone_user\<lparr>users := [\<lparr>Ident = ''u4'', PrimaryEmail = ''dave@new.com'', Aliases = []\<rparr>]\<rparr>) \<and>
   \<not> reachable ''dave@old.com'' \<lparr>Ident = ''u4'', PrimaryEmail = ''dave@new.com'', Aliases = []\<rparr>"
  by code_simp

section \<open>The confirmation gates\<close>

lemma lower_char_y: "lower_char c = CHR ''y'' \<longleftrightarrow> c = CHR ''y'' \<or> c = CHR ''Y''"
  by (auto simp: lower_char_def split: option.splits if_splits)

lemma lower_char_n: "lower_char c = CHR ''n'' \<longleftrightarrow> c = CHR ''n'' \<or> c = CHR ''N''"
  by (auto simp: lower_char_def split: option.splits if_splits)

lemma ToLower_y: "ToLower code = ''y'' \<longleftrightarrow> code = ''y'' \<or> code = ''Y''"
  by (cases code) (auto simp: ToLower_def lower_char_y)

lemma ToLower_n: "ToLower code = ''n'' \<longleftrightarrow> code = ''n'' \<or> code = ''N''"
  by (cases code) (auto simp: ToLower_def lower_char_n)

text \<open>
  C9. The two confirmation gates read one answer and compare its lower-case form. When the
  customer's domain differs from the new one, the answers whose lower-case form is \<^verbatim>\<open>y\<close>
  (that is \<^verbatim>\<open>y\<close> and \<^verbatim>\<open>Y\<close>) issue the customer update, and every other answer ends the
  process with nothing issued. When the customer's domain is the new one already, the answers
  whose lower-case form is \<^verbatim>\<open>n\<close> (that is \<^verbatim>\<open>n\<close> and \<^verbatim>\<open>N\<close>) end the process, and every
  other answer returns with nothing issued, so that what follows is exactly the two passes;
  \<^verbatim>\<open>main\<close> as a whole then is the two passes.
\<close>

theorem confirmation_gates:
  "(checkNewDomain d \<longrightarrow>
      (ToLower code = ''y'' \<longrightarrow>
         fst (snd (ChangePrimaryDomain d fails (Some code) dir))
           = [CustomersUpdateReq (CustId (cust d)) (newDomain d)] \<and>
         (\<not> fails (CustomersUpdateReq (CustId (cust d)) (newDomain d)) \<longrightarrow>
            ChangePrimaryDomain d fails (Some code) dir
              = (Inr (), [CustomersUpdateReq (CustId (cust d)) (newDomain d)],
                 dir\<lparr>customer := (customer dir)\<lparr>CustomerDomain := newDomain d\<rparr>\<rparr>))) \<and>
      (ToLower code \<noteq> ''y'' \<longrightarrow>
         ChangePrimaryDomain d fails (Some code) dir = (Inl Exit, [], dir))) \<and>
   (\<not> checkNewDomain d \<longrightarrow>
      (ToLower code = ''n'' \<longrightarrow>
         ChangePrimaryDomain d fails (Some code) dir = (Inl Exit, [], dir)) \<and>
      (ToLower code \<noteq> ''n'' \<longrightarrow>
         ChangePrimaryDomain d fails (Some code) dir = (Inr (), [], dir) \<and>
         then_run (ChangePrimaryDomain d fails (Some code) dir) (\<lambda>dir'. passes d fails dir')
           = passes d fails dir)) \<and>
   (old \<noteq> [] \<longrightarrow> new \<noteq> [] \<longrightarrow> \<not> fails CustomersGetReq \<longrightarrow>
    CustomerDomain (customer dir) = new \<longrightarrow> ToLower code \<noteq> ''n'' \<longrightarrow>
      main old new fails (Some code) dir
        = passes \<lparr>cust = customer dir, oldDomain = old, newDomain = new\<rparr> fails dir) \<and>
   (ToLower code = ''y'' \<longleftrightarrow> code = ''y'' \<or> code = ''Y'') \<and>
   (ToLower code = ''n'' \<longleftrightarrow> code = ''n'' \<or> code = ''N'')"
proof -
  have gates: "ChangePrimaryDomain d fails (Some code) dir =
      (if \<not> checkNewDomain d then
         (if ToLower code = ''n'' then (Inl Exit, [], dir) else (Inr (), [], dir))
       else if ToLower code \<noteq> ''y'' then (Inl Exit, [], dir)
       else if fails (CustomersUpdateReq (CustId (cust d)) (newDomain d))
         then (Inl Exit, [CustomersUpdateReq (CustId (cust d)) (newDomain d)], dir)
       else (Inr (), [CustomersUpdateReq (CustId (cust d)) (newDomain d)],
             dir\<lparr>customer := (customer dir)\<lparr>CustomerDomain := newDomain d\<rparr>\<rparr>))" for d
    by (simp add: ChangePrimaryDomain_def apiCustomersUpdate_def)
  have entry: "main old new fails (Some code) dir
        = passes \<lparr>cust = customer dir, oldDomain = old, newDomain = new\<rparr> fails dir"
    if "old \<noteq> []" "new \<noteq> []" "\<not> fails CustomersGetReq"
      "CustomerDomain (customer dir) = new" "ToLower code \<noteq> ''n''"
    using that by (simp add: main_def NewDomainChanger_def gates checkNewDomain_def)
  show ?thesis
    using entry by (simp add: gates ToLower_y ToLower_n)
qed

theorem confirmation_gates_witness:
  "checkNewDomain old_to_new \<and> ToLower ''Y'' = ''y'' \<and>
   ChangePrimaryDomain old_to_new no_failure (Some ''Y'') small_directory =
     (Inr (), [CustomersUpdateReq ''C01'' ''new.com''],
      small_directory\<lparr>customer := \<lparr>CustId = ''C01'', CustomerDomain = ''new.com''\<rparr>\<rparr>) \<and>
   ToLower ''yes'' \<noteq> ''y'' \<and>
   ChangePrimaryDomain old_to_new no_failure (Some ''yes'') small_directory =
     (Inl Exit, [], small_directory) \<and>
   \<not> checkNewDomain already_new \<and> ToLower ''N'' = ''n'' \<and>
   ChangePrimaryDomain already_new no_failure (Some ''N'') small_directory =
     (Inl Exit, [], small_directory) \<and>
   ToLower ''maybe'' \<noteq> ''n'' \<and>
   ChangePrimaryDomain already_new no_failure (Some ''maybe'') small_directory =
     (Inr (), [], small_directory)"
proof -
  have c1: "checkNewDomain old_to_new" by code_simp
  have c2: "\<not> checkNewDomain already_new" by code_simp
  have y: "ToLower ''Y'' = ''y''" by code_simp
  have yes: "ToLower ''yes'' \<noteq> ''y''" by code_simp
  have n: "ToLower ''N'' = ''n''" by code_simp
  have maybe: "ToLower ''maybe'' \<noteq> ''n''" by code_simp
  have ok: "\<not> no_failure (CustomersUpdateReq (CustId (cust old_to_new)) (newDomain old_to_new))"
    by (simp add: no_failure_def)
  have key: "CustId (cust old_to_new) = ''C01''" "newDomain old_to_new = ''new.com''"
    "customer small_directory = \<lparr>CustId = ''C01'', CustomerDomain = ''old.com''\<rparr>"
    by (simp_all add: old_to_new_def small_directory_def)
  from confirmation_gates [of old_to_new "''Y''" no_failure small_directory] c1 y ok
  have r1: "ChangePrimaryDomain old_to_new no_failure (Some ''Y'') small_directory =
     (Inr (), [CustomersUpdateReq ''C01'' ''new.com''],
      small_directory\<lparr>customer := \<lparr>CustId = ''C01'', CustomerDomain = ''new.com''\<rparr>\<rparr>)"
    by (simp add: key)
  from confirmation_gates [of old_to_new "''yes''" no_failure small_directory] c1 yes
  have r2: "ChangePrimaryDomain old_to_new no_failure (Some ''yes'') small_directory =
     (Inl Exit, [], small_directory)" by blast
  from confirmation_gates [of already_new "''N''" no_failure small_directory] c2 n
  have r3: "ChangePrimaryDomain already_new no_failure (Some ''N'') small_directory =
     (Inl Exit, [], small_directory)" by blast
  from confirmation_gates [of already_new "''maybe''" no_failure small_directory] c2 maybe
  have r4: "ChangePrimaryDomain already_new no_failure (Some ''maybe'') small_directory =
     (Inr (), [], small_directory)" by blast
  from c1 c2 y yes n maybe r1 r2 r3 r4 show ?thesis by blast
qed

section \<open>Exact comparison of addresses\<close>

lemma UpdateAliases_loop_mirrors:
  assumes "a \<in> set as" and "a \<noteq> old" and "emailNewDomain d a = Inr newA"
    and "newA \<notin> set (Aliases u)"
    and "UpdateAliases_loop k d fails u old as dir = (Inr (), cs, dir')"
  shows "AliasInsertReq k (Ident u) newA \<in> set cs"
  using assms
proof (induction as arbitrary: dir cs)
  case Nil
  then show ?case by simp
next
  case (Cons b bs)
  show ?case
  proof (cases "b \<noteq> old")
    case False
    with Cons.prems have "a \<in> set bs" and "UpdateAliases_loop k d fails u old bs dir = (Inr (), cs, dir')"
      by auto
    from Cons.IH [OF this(1) Cons.prems(2,3,4) this(2)] show ?thesis .
  next
    case True
    with Cons.prems(5) obtain newB where newB: "emailNewDomain d b = Inr newB"
      by (cases "emailNewDomain d b") auto
    show ?thesis
    proof (cases "hasAlias newB (Aliases u)")
      case True
      with Cons.prems newB have "a \<noteq> b" by (auto simp: hasAlias_set)
      with Cons.prems True newB \<open>b \<noteq> old\<close>
      have "a \<in> set bs" and "UpdateAliases_loop k d fails u old bs dir = (Inr (), cs, dir')"
        by auto
      from Cons.IH [OF this(1) Cons.prems(2,3,4) this(2)] show ?thesis .
    next
      case False
      let ?dir1 = "snd (apiAliasInsert fails k (Ident u) newB dir)"
      from False \<open>b \<noteq> old\<close> newB Cons.prems(5)
      have "after [AliasInsertReq k (Ident u) newB] (UpdateAliases_loop k d fails u old bs ?dir1)
              = (Inr (), cs, dir')"
        by (simp split: prod.splits)
      then obtain cs1 where run: "UpdateAliases_loop k d fails u old bs ?dir1 = (Inr (), cs1, dir')"
        and cs: "cs = [AliasInsertReq k (Ident u) newB] @ cs1" by (rule after_cases)
      show ?thesis
      proof (cases "a = b")
        case True
        with newB Cons.prems(3) cs show ?thesis by simp
      next
        case False
        with Cons.prems(1) have "a \<in> set bs" by simp
        from Cons.IH [OF this Cons.prems(2,3,4) run] cs show ?thesis by simp
      qed
    qed
  qed
qed

lemma UpdateUsers_loop_renames:
  assumes "emailNewDomain d (PrimaryEmail u) = Inr e" and "e \<noteq> PrimaryEmail u"
  shows "\<exists>cs'. fst (snd (UpdateUsers_loop d fails (u # us) dir)) = UpdateReq User (Ident u) e # cs'"
  using assms by (simp add: requests_after split: prod.splits sum.splits)

lemma UpdateGroups_loop_renames:
  assumes "emailNewDomain d (PrimaryEmail u) = Inr e" and "e \<noteq> PrimaryEmail u"
  shows "\<exists>cs'. fst (snd (UpdateGroups_loop d fails (u # us) dir)) = UpdateReq Group (Ident u) e # cs'"
  using assms by (simp add: requests_after split: prod.splits sum.splits)

text \<open>
  C10. Comparisons are exact string equality. \<^verbatim>\<open>hasAlias\<close> holds exactly when an equal
  string is in the list. In the alias pass of a user and in that of a group, an alias that is
  not equal to the old-domain form of the primary address (it may differ from it in letter
  case only) is mirrored: when its new-domain form is not among the aliases and the pass
  completes, the insert of that form has been issued. The test for a principal being already
  current is exact as well, in the user loop and in the group loop: when the rewritten
  address differs from the primary address as a string, the update is the first request the
  loop issues for the record, and when the two are equal the loop goes straight to the alias
  pass.
\<close>

theorem comparisons_are_exact:
  "(hasAlias candidate aliases \<longleftrightarrow> candidate \<in> set aliases) \<and>
   (emailOldDomain d (PrimaryEmail u) = Inr oldAddress \<longrightarrow>
    a \<in> set (Aliases u) \<longrightarrow> a \<noteq> oldAddress \<longrightarrow>
    emailNewDomain d a = Inr newA \<longrightarrow> newA \<notin> set (Aliases u) \<longrightarrow>
      (UpdateUserAliases d fails u dir = (Inr (), cs, dir') \<longrightarrow>
         AliasInsertReq User (Ident u) newA \<in> set cs) \<and>
      (UpdateGroupAliases d fails u dir = (Inr (), cs, dir') \<longrightarrow>
         AliasInsertReq Group (Ident u) newA \<in> set cs)) \<and>
   (emailNewDomain d (PrimaryEmail u) = Inr e \<longrightarrow> e \<noteq> PrimaryEmail u \<longrightarrow>
      (\<exists>cs'. fst (snd (UpdateUsers_loop d fails (u # us) dir)) = UpdateReq User (Ident u) e # cs') \<and>
      (\<exists>cs'. fst (snd (UpdateGroups_loop d fails (u # us) dir)) = UpdateReq Group (Ident u) e # cs')) \<and>
   (emailNewDomain d (PrimaryEmail u) = Inr (PrimaryEmail u) \<longrightarrow>
      UpdateUsers_loop d fails (u # us) dir =
        then_run (UpdateUserAliases d fails u dir) (UpdateUsers_loop d fails us) \<and>
      UpdateGroups_loop d fails (u # us) dir =
        then_run (UpdateGroupAliases d fails u dir) (UpdateGroups_loop d fails us))"
proof (intro conjI impI)
  show "hasAlias candidate aliases \<longleftrightarrow> candidate \<in> set aliases" by (rule hasAlias_set)
next
  assume "emailOldDomain d (PrimaryEmail u) = Inr oldAddress" "a \<in> set (Aliases u)"
    "a \<noteq> oldAddress" "emailNewDomain d a = Inr newA" "newA \<notin> set (Aliases u)"
    "UpdateUserAliases d fails u dir = (Inr (), cs, dir')"
  then show "AliasInsertReq User (Ident u) newA \<in> set cs"
    by (auto simp: UpdateUserAliases_def UpdateAliases_def intro: UpdateAliases_loop_mirrors)
next
  assume "emailOldDomain d (PrimaryEmail u) = Inr oldAddress" "a \<in> set (Aliases u)"
    "a \<noteq> oldAddress" "emailNewDomain d a = Inr newA" "newA \<notin> set (Aliases u)"
    "UpdateGroupAliases d fails u dir = (Inr (), cs, dir')"
  then show "AliasInsertReq Group (Ident u) newA \<in> set cs"
    by (auto simp: UpdateGroupAliases_def UpdateAliases_def intro: UpdateAliases_loop_mirrors)
next
  assume "emailNewDomain d (PrimaryEmail u) = Inr e" "e \<noteq> PrimaryEmail u"
  then show "\<exists>cs'. fst (snd (UpdateUsers_loop d fails (u # us) dir)) = UpdateReq User (Ident u) e # cs'"
    by (rule UpdateUsers_loop_renames)
next
  assume "emailNewDomain d (PrimaryEmail u) = Inr e" "e \<noteq> PrimaryEmail u"
  then show "\<exists>cs'. fst (snd (UpdateGroups_loop d fails (u # us) dir)) = UpdateReq Group (Ident u) e # cs'"
    by (rule UpdateGroups_loop_renames)
next
  assume "emailNewDomain d (PrimaryEmail u) = Inr (PrimaryEmail u)"
  then show "UpdateUsers_loop d fails (u # us) dir =
        then_run (UpdateUserAliases d fails u dir) (UpdateUsers_loop d fails us)" by simp
next
  assume "emailNewDomain d (PrimaryEmail u) = Inr (PrimaryEmail u)"
  then show "UpdateGroups_loop d fails (u # us) dir =
        then_run (UpdateGroupAliases d fails u dir) (UpdateGroups_loop d fails us)" by simp
qed

text \<open>
  The alias \<^verbatim>\<open>Bob@old.com\<close> of \<^verbatim>\<open>bob@New.com\<close> differs from \<^verbatim>\<open>bob@old.com\<close> in case only, and
  \<^verbatim>\<open>Bob@new.com\<close> is inserted for it; the primary address \<^verbatim>\<open>bob@New.com\<close> differs from
  \<^verbatim>\<open>bob@new.com\<close> in case only, and the update is issued.
\<close>

theorem comparisons_are_exact_witness:
  "hasAlias ''Bob@old.com'' [''bob@old.com''] = False \<and>
   ''Bob@old.com'' \<notin> set [''bob@old.com''] \<and>
   ToLower ''Bob@old.com'' = ToLower ''bob@old.com'' \<and>
   emailOldDomain old_to_new ''bob@New.com'' = Inr ''bob@old.com'' \<and>
   ''Bob@old.com'' \<noteq> ''bob@old.com'' \<and>
   emailNewDomain old_to_new ''Bob@old.com'' = Inr ''Bob@new.com'' \<and>
   AliasInsertReq User ''u2'' ''Bob@new.com''
     \<in> set (fst (snd (UpdateUserAliases old_to_new no_failure
           \<lparr>Ident = ''u2'', PrimaryEmail = ''bob@New.com'', Aliases = [''Bob@old.com'']\<rparr>
           small_directory))) \<and>
   AliasInsertReq Group ''u2'' ''Bob@new.com''
     \<in> set (fst (snd (UpdateGroupAliases old_to_new no_failure
           \<lparr>Ident = ''u2'', PrimaryEmail = ''bob@New.com'', Aliases = [''Bob@old.com'']\<rparr>
           small_directory))) \<and>
   emailNewDomain old_to_new ''bob@New.com'' = Inr ''bob@new.com'' \<and>
   ToLower ''bob@New.com'' = ToLower ''bob@new.com'' \<and>
   ''bob@new.com'' \<noteq> ''bob@New.com'' \<and>
   (\<exists>cs'. fst (snd (UpdateUsers_loop old_to_new no_failure
           [\<lparr>Ident = ''u2'', PrimaryEmail = ''bob@New.com'', Aliases = [''Bob@old.com'']\<rparr>]
           small_directory)) = UpdateReq User ''u2'' ''bob@new.com'' # cs') \<and>
   (\<exists>cs'. fst (snd (UpdateGroups_loop old_to_new no_failure
           [\<lparr>Ident = ''u2'', PrimaryEmail = ''bob@New.com'', Aliases = [''Bob@old.com'']\<rparr>]
           small_directory)) = UpdateReq Group ''u2'' ''bob@new.com'' # cs')"
proof -
  let ?u = "\<lparr>Ident = ''u2'', PrimaryEmail = ''bob@New.com'', Aliases = [''Bob@old.com'']\<rparr>"
  have h: "hasAlias ''Bob@old.com'' [''bob@old.com''] = False" by code_simp
  have lower: "ToLower ''Bob@old.com'' = ToLower ''bob@old.com''" by code_simp
  have lower': "ToLower ''bob@New.com'' = ToLower ''bob@new.com''" by code_simp
  have old: "emailOldDomain old_to_new (PrimaryEmail ?u) = Inr ''bob@old.com''" by code_simp
  have a: "''Bob@old.com'' \<in> set (Aliases ?u)" by simp
  have ne: "''Bob@old.com'' \<noteq> ''bob@old.com''" by simp
  have new: "emailNewDomain old_to_new ''Bob@old.com'' = Inr ''Bob@new.com''" by code_simp
  have fresh: "''Bob@new.com'' \<notin> set (Aliases ?u)" by simp
  have e: "emailNewDomain old_to_new (PrimaryEmail ?u) = Inr ''bob@new.com''" by code_simp
  have ne': "''bob@new.com'' \<noteq> PrimaryEmail ?u" by simp
  have "fst (UpdateUserAliases old_to_new no_failure ?u small_directory) = Inr ()" by code_simp
  then have urun: "UpdateUserAliases old_to_new no_failure ?u small_directory =
      (Inr (), fst (snd (UpdateUserAliases old_to_new no_failure ?u small_directory)),
       snd (snd (UpdateUserAliases old_to_new no_failure ?u small_directory)))"
    by (metis prod.collapse)
  have "fst (UpdateGroupAliases old_to_new no_failure ?u small_directory) = Inr ()" by code_simp
  then have grun: "UpdateGroupAliases old_to_new no_failure ?u small_directory =
      (Inr (), fst (snd (UpdateGroupAliases old_to_new no_failure ?u small_directory)),
       snd (snd (UpdateGroupAliases old_to_new no_failure ?u small_directory)))"
    by (metis prod.collapse)
  note exact = comparisons_are_exact [where candidate = "''Bob@old.com''" and aliases = "[''bob@old.com'']"
      and d = old_to_new and u = "?u" and oldAddress = "''bob@old.com''" and a = "''Bob@old.com''"
      and newA = "''Bob@new.com''" and fails = no_failure and dir = small_directory
      and e = "''bob@new.com''" and us = "[]"]
  from exact [THEN conjunct1] h have "''Bob@old.com'' \<notin> set [''bob@old.com'']" by simp
  moreover from exact [where cs = "fst (snd (UpdateUserAliases old_to_new no_failure ?u small_directory))"
      and dir' = "snd (snd (UpdateUserAliases old_to_new no_failure ?u small_directory))",
      THEN conjunct2, THEN conjunct1, rule_format, OF old a ne new fresh, THEN conjunct1, THEN mp, OF urun]
  have "AliasInsertReq User ''u2'' ''Bob@new.com''
     \<in> set (fst (snd (UpdateUserAliases old_to_new no_failure ?u small_directory)))" by simp
  moreover from exact [where cs = "fst (snd (UpdateGroupAliases old_to_new no_failure ?u small_directory))"
      and dir' = "snd (snd (UpdateGroupAliases old_to_new no_failure ?u small_directory))",
      THEN conjunct2, THEN conjunct1, rule_format, OF old a ne new fresh, THEN conjunct2, THEN mp, OF grun]
  have "AliasInsertReq Group ''u2'' ''Bob@new.com''
     \<in> set (fst (snd (UpdateGroupAliases old_to_new no_failure ?u small_directory)))" by simp
  moreover from exact [THEN conjunct2, THEN conjunct2, THEN conjunct1, THEN mp, THEN mp, OF e ne']
  have "(\<exists>cs'. fst (snd (UpdateUsers_loop old_to_new no_failure [?u] small_directory))
            = UpdateReq User ''u2'' ''bob@new.com'' # cs') \<and>
        (\<exists>cs'. fst (snd (UpdateGroups_loop old_to_new no_failure [?u] small_directory))
            = UpdateReq Group ''u2'' ''bob@new.com'' # cs')" by simp
  moreover from old have "emailOldDomain old_to_new ''bob@New.com'' = Inr ''bob@old.com''" by simp
  moreover from e have "emailNewDomain old_to_new ''bob@New.com'' = Inr ''bob@new.com''" by simp
  moreover have "''bob@new.com'' \<noteq> ''bob@New.com''" by simp
  ultimately show ?thesis using h lower lower' ne new by blast
qed

section \<open>Failures of the service\<close>

lemma UpdateUsers_loop_append:
  "UpdateUsers_loop d fails (xs @ ys) dir =
     then_run (UpdateUsers_loop d fails xs dir) (\<lambda>dir'. UpdateUsers_loop d fails ys dir')"
proof (induction xs arbitrary: dir)
  case Nil
  show ?case by simp
next
  case (Cons u xs)
  have ih: "UpdateUsers_loop d fails (xs @ ys) =
      (\<lambda>dir. then_run (UpdateUsers_loop d fails xs dir) (UpdateUsers_loop d fails ys))"
    by (rule ext) (rule Cons.IH)
  show ?case
    by (simp add: ih then_run_assoc then_run_after split: sum.splits prod.splits)
qed

lemma UpdateGroups_loop_append:
  "UpdateGroups_loop d fails (xs @ ys) dir =
     then_run (UpdateGroups_loop d fails xs dir) (\<lambda>dir'. UpdateGroups_loop d fails ys dir')"
proof (induction xs arbitrary: dir)
  case Nil
  show ?case by simp
next
  case (Cons g xs)
  have ih: "UpdateGroups_loop d fails (xs @ ys) =
      (\<lambda>dir. then_run (UpdateGroups_loop d fails xs dir) (UpdateGroups_loop d fails ys))"
    by (rule ext) (rule Cons.IH)
  show ?case
    by (simp add: ih then_run_assoc then_run_after split: sum.splits prod.splits)
qed

lemma UpdateUsers_loop_failed_update:
  assumes "emailNewDomain d (PrimaryEmail u) = Inr e" and "e \<noteq> PrimaryEmail u"
    and "fails (UpdateReq User (Ident u) e)"
  shows "UpdateUsers_loop d fails (u # post) dir = (Inl NilDereference, [UpdateReq User (Ident u) e], dir)"
  using assms by (simp add: apiUpdate_def)

lemma UpdateGroups_loop_failed_update:
  assumes "emailNewDomain d (PrimaryEmail g) = Inr e" and "e \<noteq> PrimaryEmail g"
    and "fails (UpdateReq Group (Ident g) e)"
  shows "UpdateGroups_loop d fails (g # post) dir = (Inl NilDereference, [UpdateReq Group (Ident g) e], dir)"
  using assms by (simp add: apiUpdate_def)

lemma changeEmailDomain_only_panics:
  "changeEmailDomain email domain = Inl e \<Longrightarrow> e = IndexOutOfRange"
  by (simp add: changeEmailDomain_def Let_def split: if_splits)

lemma UpdateAliases_loop_only_panics:
  "fst (UpdateAliases_loop k d fails u old as dir) = Inl e \<Longrightarrow> e = IndexOutOfRange"
proof (induction as arbitrary: dir)
  case Nil
  then show ?case by simp
next
  case (Cons a as)
  show ?case
  proof (cases "emailNewDomain d a")
    case (Inl e0)
    then have "e0 = IndexOutOfRange"
      unfolding emailNewDomain_def by (rule changeEmailDomain_only_panics)
    with Inl Cons.prems Cons.IH show ?thesis by (simp split: if_splits)
  next
    case (Inr newA)
    with Cons.prems Cons.IH show ?thesis
      by (simp add: fst_after case_prod_beta split: if_splits)
  qed
qed

lemma UpdateAliases_loop_any_failures:
  "fst (UpdateAliases_loop k d fails u old as dir) = fst (UpdateAliases_loop k d fails' u old as dir2) \<and>
   fst (snd (UpdateAliases_loop k d fails u old as dir))
     = fst (snd (UpdateAliases_loop k d fails' u old as dir2))"
proof (induction as arbitrary: dir dir2)
  case Nil
  show ?case by simp
next
  case (Cons a as)
  show ?case
  proof (cases "emailNewDomain d a")
    case (Inl e)
    with Cons.IH [of dir dir2] show ?thesis by simp
  next
    case (Inr newA)
    show ?thesis
    proof (cases "a \<noteq> old \<and> \<not> hasAlias newA (Aliases u)")
      case True
      with Inr Cons.IH [of "snd (apiAliasInsert fails k (Ident u) newA dir)"
          "snd (apiAliasInsert fails' k (Ident u) newA dir2)"]
      show ?thesis by (simp add: fst_after requests_after case_prod_beta)
    next
      case False
      with Inr Cons.IH [of dir dir2] show ?thesis by auto
    qed
  qed
qed

lemma UpdateAliases_any_failures:
  "fst (UpdateAliases k d fails u dir) = fst (UpdateAliases k d no_failure u dir)"
  "fst (snd (UpdateAliases k d fails u dir)) = fst (snd (UpdateAliases k d no_failure u dir))"
  "fst (UpdateAliases k d fails u dir) \<noteq> Inl Exit"
  "fst (UpdateAliases k d fails u dir) \<noteq> Inl NilDereference"
proof -
  show "fst (UpdateAliases k d fails u dir) = fst (UpdateAliases k d no_failure u dir)"
    using UpdateAliases_loop_any_failures [of k d fails u _ "Aliases u" dir no_failure dir]
    by (cases "emailOldDomain d (PrimaryEmail u)") (simp_all add: UpdateAliases_def)
  show "fst (snd (UpdateAliases k d fails u dir)) = fst (snd (UpdateAliases k d no_failure u dir))"
    using UpdateAliases_loop_any_failures [of k d fails u _ "Aliases u" dir no_failure dir]
    by (cases "emailOldDomain d (PrimaryEmail u)") (simp_all add: UpdateAliases_def)
  have only: "e = IndexOutOfRange" if "fst (UpdateAliases k d fails u dir) = Inl e" for e
  proof (cases "emailOldDomain d (PrimaryEmail u)")
    case (Inl e0)
    then have "e0 = IndexOutOfRange"
      unfolding emailOldDomain_def by (rule changeEmailDomain_only_panics)
    with Inl that show ?thesis by (simp add: UpdateAliases_def)
  next
    case (Inr old)
    with that have "fst (UpdateAliases_loop k d fails u old (Aliases u) dir) = Inl e"
      by (simp add: UpdateAliases_def)
    then show ?thesis by (rule UpdateAliases_loop_only_panics)
  qed
  from only [of Exit] show "fst (UpdateAliases k d fails u dir) \<noteq> Inl Exit" by auto
  from only [of NilDereference] show "fst (UpdateAliases k d fails u dir) \<noteq> Inl NilDereference"
    by auto
qed

lemma UpdateUsers_stops_at_failed_update:
  assumes page: "take 50 (sort_key PrimaryEmail (users dir)) = pre @ u # post" and listed: "\<not> fails (ListReq User)"
    and before: "UpdateUsers_loop d fails pre dir = (Inr (), cs, dir1)"
    and e: "emailNewDomain d (PrimaryEmail u) = Inr e" "e \<noteq> PrimaryEmail u"
    and failed: "fails (UpdateReq User (Ident u) e)"
  shows "UpdateUsers d fails dir = (Inl NilDereference, cs @ [UpdateReq User (Ident u) e], dir1)"
proof -
  have "UpdateUsers d fails dir = UpdateUsers_loop d fails (pre @ u # post) dir"
    using listed by (simp only: UpdateUsers_unfold page if_False)
  also have "\<dots> = then_run (UpdateUsers_loop d fails pre dir)
                     (\<lambda>dir'. UpdateUsers_loop d fails (u # post) dir')"
    by (rule UpdateUsers_loop_append)
  also have "\<dots> = after cs (UpdateUsers_loop d fails (u # post) dir1)"
    by (simp only: before then_run_simps)
  also have "\<dots> = after cs (Inl NilDereference, [UpdateReq User (Ident u) e], dir1)"
    using UpdateUsers_loop_failed_update [of d u e fails post dir1] e failed by simp
  also have "\<dots> = (Inl NilDereference, cs @ [UpdateReq User (Ident u) e], dir1)"
    by (simp only: after_simps)
  finally show ?thesis .
qed

lemma UpdateGroups_stops_at_failed_update:
  assumes page: "take 200 (groups dir) = pre @ g # post" and listed: "\<not> fails (ListReq Group)"
    and before: "UpdateGroups_loop d fails pre dir = (Inr (), cs, dir1)"
    and e: "emailNewDomain d (PrimaryEmail g) = Inr e" "e \<noteq> PrimaryEmail g"
    and failed: "fails (UpdateReq Group (Ident g) e)"
  shows "UpdateGroups d fails dir = (Inl NilDereference, cs @ [UpdateReq Group (Ident g) e], dir1)"
proof -
  have "UpdateGroups d fails dir = UpdateGroups_loop d fails (pre @ g # post) dir"
    using listed by (simp only: UpdateGroups_unfold page if_False)
  also have "\<dots> = then_run (UpdateGroups_loop d fails pre dir)
                     (\<lambda>dir'. UpdateGroups_loop d fails (g # post) dir')"
    by (rule UpdateGroups_loop_append)
  also have "\<dots> = after cs (UpdateGroups_loop d fails (g # post) dir1)"
    by (simp only: before then_run_simps)
  also have "\<dots> = after cs (Inl NilDereference, [UpdateReq Group (Ident g) e], dir1)"
    using UpdateGroups_loop_failed_update [of d g e fails post dir1] e failed by simp
  also have "\<dots> = (Inl NilDereference, cs @ [UpdateReq Group (Ident g) e], dir1)"
    by (simp only: after_simps)
  finally show ?thesis .
qed

text \<open>
  C3 (as amended). A failed update of a primary address ends the pass: when the update of
  the listed record \<open>u\<close> fails, after the records before it were processed, the user pass
  (and likewise the group pass) stops the process with that update as its last request,
  whatever records follow. A failed alias insert is not fatal: the alias pass ends the same
  way and issues the same requests as with a service that answers everything, and it never
  ends with the exit of a fatal error, nor with a nil-pointer panic.
\<close>

theorem failed_update_ends_the_pass:
  "(take 50 (sort_key PrimaryEmail (users dir)) = pre @ u # post \<longrightarrow> \<not> fails (ListReq User) \<longrightarrow>
    UpdateUsers_loop d fails pre dir = (Inr (), cs, dir1) \<longrightarrow>
    emailNewDomain d (PrimaryEmail u) = Inr e \<longrightarrow> e \<noteq> PrimaryEmail u \<longrightarrow>
    fails (UpdateReq User (Ident u) e) \<longrightarrow>
    UpdateUsers d fails dir = (Inl NilDereference, cs @ [UpdateReq User (Ident u) e], dir1)) \<and>
   (take 200 (groups dir) = pre @ u # post \<longrightarrow> \<not> fails (ListReq Group) \<longrightarrow>
    UpdateGroups_loop d fails pre dir = (Inr (), cs, dir1) \<longrightarrow>
    emailNewDomain d (PrimaryEmail u) = Inr e \<longrightarrow> e \<noteq> PrimaryEmail u \<longrightarrow>
    fails (UpdateReq Group (Ident u) e) \<longrightarrow>
    UpdateGroups d fails dir = (Inl NilDereference, cs @ [UpdateReq Group (Ident u) e], dir1)) \<and>
   fst (UpdateAliases k d fails u dir) = fst (UpdateAliases k d no_failure u dir) \<and>
   fst (snd (UpdateAliases k d fails u dir)) = fst (snd (UpdateAliases k d no_failure u dir)) \<and>
   fst (UpdateAliases k d fails u dir) \<noteq> Inl Exit \<and>
   fst (UpdateAliases k d fails u dir) \<noteq> Inl NilDereference"
proof (intro conjI impI)
  assume "take 50 (sort_key PrimaryEmail (users dir)) = pre @ u # post" "\<not> fails (ListReq User)"
    "UpdateUsers_loop d fails pre dir = (Inr (), cs, dir1)"
    "emailNewDomain d (PrimaryEmail u) = Inr e" "e \<noteq> PrimaryEmail u"
    "fails (UpdateReq User (Ident u) e)"
  then show "UpdateUsers d fails dir = (Inl NilDereference, cs @ [UpdateReq User (Ident u) e], dir1)"
    by (rule UpdateUsers_stops_at_failed_update)
next
  assume "take 200 (groups dir) = pre @ u # post" "\<not> fails (ListReq Group)"
    "UpdateGroups_loop d fails pre dir = (Inr (), cs, dir1)"
    "emailNewDomain d (PrimaryEmail u) = Inr e" "e \<noteq> PrimaryEmail u"
    "fails (UpdateReq Group (Ident u) e)"
  then show "UpdateGroups d fails dir = (Inl NilDereference, cs @ [UpdateReq Group (Ident u) e], dir1)"
    by (rule UpdateGroups_stops_at_failed_update)
qed (rule UpdateAliases_any_failures)+

text \<open>
  The small directory, with the update of the second user failing, and with that of the
  group failing.
\<close>

theorem failed_update_ends_the_pass_witness:
  "take 50 (sort_key PrimaryEmail (users small_directory)) =
     [\<lparr>Ident = ''u1'', PrimaryEmail = ''alice@old.com'', Aliases = [''alice@old.com'']\<rparr>] @
     \<lparr>Ident = ''u2'', PrimaryEmail = ''bob@old.com'', Aliases = [''robert@old.com'']\<rparr> #
     [\<lparr>Ident = ''u3'', PrimaryEmail = ''carol@new.com'', Aliases = []\<rparr>] \<and>
   fails_only (UpdateReq User ''u2'' ''bob@new.com'') (UpdateReq User ''u2'' ''bob@new.com'') \<and>
   UpdateUsers old_to_new (fails_only (UpdateReq User ''u2'' ''bob@new.com'')) small_directory =
     (Inl NilDereference, [UpdateReq User ''u1'' ''alice@new.com'', UpdateReq User ''u2'' ''bob@new.com''],
      small_directory\<lparr>users :=
        [\<lparr>Ident = ''u1'', PrimaryEmail = ''alice@new.com'', Aliases = [''alice@old.com'']\<rparr>,
         \<lparr>Ident = ''u2'', PrimaryEmail = ''bob@old.com'', Aliases = [''robert@old.com'']\<rparr>,
         \<lparr>Ident = ''u3'', PrimaryEmail = ''carol@new.com'', Aliases = []\<rparr>]\<rparr>) \<and>
   take 200 (groups small_directory) =
     [] @ \<lparr>Ident = ''g1'', PrimaryEmail = ''team@old.com'',
            Aliases = [''team-alias@old.com'', ''team-alias@new.com'']\<rparr> # [] \<and>
   UpdateGroups old_to_new (fails_only (UpdateReq Group ''g1'' ''team@new.com'')) small_directory =
     (Inl NilDereference, [UpdateReq Group ''g1'' ''team@new.com''], small_directory)"
proof -
  let ?u1 = "\<lparr>Ident = ''u1'', PrimaryEmail = ''alice@old.com'', Aliases = [''alice@old.com'']\<rparr>"
  let ?u2 = "\<lparr>Ident = ''u2'', PrimaryEmail = ''bob@old.com'', Aliases = [''robert@old.com'']\<rparr>"
  let ?u3 = "\<lparr>Ident = ''u3'', PrimaryEmail = ''carol@new.com'', Aliases = []\<rparr>"
  let ?g1 = "\<lparr>Ident = ''g1'', PrimaryEmail = ''team@old.com'',
            Aliases = [''team-alias@old.com'', ''team-alias@new.com'']\<rparr>"
  let ?fu = "fails_only (UpdateReq User ''u2'' ''bob@new.com'')"
  let ?fg = "fails_only (UpdateReq Group ''g1'' ''team@new.com'')"
  let ?dir1 = "small_directory\<lparr>users :=
        [\<lparr>Ident = ''u1'', PrimaryEmail = ''alice@new.com'', Aliases = [''alice@old.com'']\<rparr>, ?u2, ?u3]\<rparr>"
  have page: "take 50 (sort_key PrimaryEmail (users small_directory)) = [?u1] @ ?u2 # [?u3]" by code_simp
  have listed: "\<not> ?fu (ListReq User)" by code_simp
  have before: "UpdateUsers_loop old_to_new ?fu [?u1] small_directory =
      (Inr (), [UpdateReq User ''u1'' ''alice@new.com''], ?dir1)" by code_simp
  have e: "emailNewDomain old_to_new (PrimaryEmail ?u2) = Inr ''bob@new.com''" by code_simp
  have ne: "''bob@new.com'' \<noteq> PrimaryEmail ?u2" by simp
  have failed: "?fu (UpdateReq User (Ident ?u2) ''bob@new.com'')" by (simp add: fails_only_def)
  have gpage: "take 200 (groups small_directory) = [] @ ?g1 # []" by code_simp
  have glisted: "\<not> ?fg (ListReq Group)" by code_simp
  have gbefore: "UpdateGroups_loop old_to_new ?fg [] small_directory = (Inr (), [], small_directory)"
    by simp
  have ge: "emailNewDomain old_to_new (PrimaryEmail ?g1) = Inr ''team@new.com''" by code_simp
  have gne: "''team@new.com'' \<noteq> PrimaryEmail ?g1" by simp
  have gfailed: "?fg (UpdateReq Group (Ident ?g1) ''team@new.com'')" by (simp add: fails_only_def)
  from failed_update_ends_the_pass [where dir = small_directory and pre = "[?u1]" and u = "?u2"
      and post = "[?u3]" and fails = "?fu" and d = old_to_new
      and cs = "[UpdateReq User ''u1'' ''alice@new.com'']" and ?dir1.0 = "?dir1"
      and e = "''bob@new.com''", THEN conjunct1, rule_format, OF page listed before e ne failed]
  have users: "UpdateUsers old_to_new ?fu small_directory =
     (Inl NilDereference, [UpdateReq User ''u1'' ''alice@new.com'', UpdateReq User ''u2'' ''bob@new.com''], ?dir1)"
    by simp
  from failed_update_ends_the_pass [where dir = small_directory and pre = "[]" and u = "?g1"
      and post = "[]" and fails = "?fg" and d = old_to_new
      and cs = "[]" and ?dir1.0 = small_directory
      and e = "''team@new.com''", THEN conjunct2, THEN conjunct1, rule_format,
      OF gpage glisted gbefore ge gne gfailed]
  have groups: "UpdateGroups old_to_new ?fg small_directory =
     (Inl NilDereference, [UpdateReq Group ''g1'' ''team@new.com''], small_directory)"
    by simp
  from page failed users gpage groups show ?thesis by simp
qed

text \<open>
  C3, as stated, fails: when the update of the first user fails, the process stops; the second
  user, who is still on the old domain, and the group are never processed.
\<close>

theorem failed_update_stops_everything:
  "passes old_to_new (fails_only (UpdateReq User ''u1'' ''alice@new.com'')) small_directory =
     (Inl NilDereference, [UpdateReq User ''u1'' ''alice@new.com''], small_directory)"
  by code_simp

section \<open>The listing is a single page\<close>

text \<open>
  C1. The user pass reads one page of at most fifty records and never asks for the next one.
  On fifty-one users of the old domain it renames the first fifty and ends normally; the
  fifty-first keeps its old address and no request is issued for it.
\<close>

theorem only_first_fifty_users:
  "UpdateUsers old_to_new no_failure fifty_one_users =
     (Inr (),
      map (\<lambda>c. UpdateReq User [c] (c # ''@new.com''))
        ''0123456789ABCDEFGHIJKLMNOPQRSTUVWXYZabcdefghijklmn'',
      fifty_one_users\<lparr>users :=
        map (\<lambda>c. \<lparr>Ident = [c], PrimaryEmail = c # ''@new.com'', Aliases = []\<rparr>)
          ''0123456789ABCDEFGHIJKLMNOPQRSTUVWXYZabcdefghijklmn'' @
        [\<lparr>Ident = ''o'', PrimaryEmail = ''o@old.com'', Aliases = []\<rparr>]\<rparr>)"
  by code_simp

section \<open>Repeated inserts\<close>

text \<open>
  C7. Every candidate is tested against the alias list as it was listed, not against what
  the pass has inserted since: two aliases with the same local part on two domains make the
  pass issue the insert of the same new alias twice.
\<close>

theorem same_alias_inserted_twice:
  "fst (snd (UpdateUserAliases old_to_new no_failure two_domains_user
       (lone_user\<lparr>users := [two_domains_user]\<rparr>))) =
     [AliasInsertReq User ''u5'' ''a@new.com'', AliasInsertReq User ''u5'' ''a@new.com'']"
  by code_simp

end
